theory Spec2Isabelle
  imports
    Complex_Main
    "HOL-Library.Multiset"
    "HOL-Library.Char_ord"
    "HOL-Library.List_Lexorder"
    "HOL-Library.Option_ord"
begin

section \<open>Data model of the server\<close>

text \<open>
  The server is one TypeScript module: the classifier \<open>analyzeBatch\<close>, the upload handler
  (row normaliser, batch loop, merge, bulk insert) and the read endpoints.
  A JavaScript string is modelled as a \<open>string\<close>; one \<open>char\<close> stands for one code unit
  below 256. A JavaScript number is modelled as a \<open>real\<close> (the scores are only passed
  along, never computed with).
\<close>

datatype sentiment_label = Positive | Neutral | Negative

record Mention =
  id_m :: string
  source_m :: string
  content_m :: string
  date_m :: string

record SentimentAnalysis =
  mentionId :: string
  sentiment :: sentiment_label
  score :: real
  entity :: string

text \<open>What \<open>JSON.parse\<close> can return. An object is its list of own properties.\<close>

datatype json =
    JNull
  | JBool bool
  | JNum real
  | JStr string
  | JArr "json list"
  | JObj "(string \<times> json) list"

text \<open>
  The external model is a parameter. One call of \<open>model.generateContent\<close> followed by
  \<open>result.response.text()\<close> either throws (the error may carry a numeric \<open>status\<close>)
  or yields a text; of the text only the outcome of stripping the code fences and
  \<open>JSON.parse\<close> matters: \<open>None\<close> when \<open>JSON.parse\<close> throws.
\<close>

datatype gen_outcome =
    Rejects "nat option"
  | Responds "json option"

datatype js_error = ApiError "nat option" | TypeError

fun status :: "js_error \<Rightarrow> nat option" where
  "status (ApiError s) = s"
| "status TypeError = None"

text \<open>
  The effects of a run: how many calls went to the external model, and the waits
  (milliseconds) in the order they were slept.
\<close>

record World =
  calls :: nat
  sleeps :: "nat list"

definition sleep :: "nat \<Rightarrow> World \<Rightarrow> World" where
  "sleep ms w = w\<lparr>sleeps := sleeps w @ [ms]\<rparr>"

section \<open>The classifier\<close>

definition normalizeSentiment :: "json option \<Rightarrow> sentiment_label" where
  "normalizeSentiment v =
     (if v = Some (JStr ''positive'') then Positive
      else if v = Some (JStr ''negative'') then Negative
      else if v = Some (JStr ''neutral'') then Neutral
      else Neutral)"

text \<open>
  Reading a property \<open>p.k\<close> of a parsed value, for the four keys the classifier reads
  (\<open>mentionId\<close>, \<open>sentiment\<close>, \<open>score\<close>, \<open>entity\<close>): on \<open>null\<close> it throws a TypeError,
  on an object it is the own property or \<open>undefined\<close> (\<open>None\<close>), on a boolean, number,
  string or array it is \<open>undefined\<close>.
\<close>

fun get_prop :: "json \<Rightarrow> string \<Rightarrow> js_error + json option" where
  "get_prop JNull k = Inl TypeError"
| "get_prop (JObj kvs) k = Inr (map_of kvs k)"
| "get_prop v k = Inr None"

text \<open>The same read on a value known not to be \<open>null\<close>.\<close>

fun get_field :: "json \<Rightarrow> string \<Rightarrow> json option" where
  "get_field (JObj kvs) k = map_of kvs k"
| "get_field v k = None"

text \<open>\<open>parsed.find(p => p.mentionId === mention.id)\<close>\<close>

fun find_parsed :: "json list \<Rightarrow> string \<Rightarrow> js_error + json option" where
  "find_parsed [] i = Inr None"
| "find_parsed (p # ps) i =
     (case get_prop p ''mentionId'' of
        Inl e \<Rightarrow> Inl e
      | Inr v \<Rightarrow> if v = Some (JStr i) then Inr (Some p) else find_parsed ps i)"

text \<open>
  \<open>String.prototype.trim\<close> removes white space at both ends; below code 256 the
  white space characters are 9 to 13, 32 and 160.
\<close>

definition is_space :: "char \<Rightarrow> bool" where
  "is_space c = ((of_char c :: nat) \<in> {9, 10, 11, 12, 13, 32, 160})"

definition trim :: "string \<Rightarrow> string" where
  "trim s = rev (dropWhile is_space (rev (dropWhile is_space s)))"

definition default_result :: "Mention \<Rightarrow> SentimentAnalysis" where
  "default_result m =
     \<lparr>mentionId = id_m m, sentiment = Neutral, score = 1 / 2, entity = ''General''\<rparr>"

text \<open>The result built when no API key is configured (first line of \<open>analyzeBatch\<close>).\<close>

definition nokey_result :: "Mention \<Rightarrow> SentimentAnalysis" where
  "nokey_result m =
     \<lparr>mentionId = id_m m, sentiment = Neutral, score = 0, entity = ''General''\<rparr>"

text \<open>
  The object built from a matched element. \<open>found.mentionId || mention.id\<close>: the
  element was matched by \<open>found.mentionId === mention.id\<close>, so \<open>found.mentionId\<close> is a
  string; the empty string is falsy.
\<close>

definition coerce :: "json \<Rightarrow> Mention \<Rightarrow> SentimentAnalysis" where
  "coerce found mention =
     \<lparr>mentionId =
        (case get_field found ''mentionId'' of
           Some (JStr s) \<Rightarrow> if s \<noteq> [] then s else id_m mention
         | _ \<Rightarrow> id_m mention),
      sentiment = normalizeSentiment (get_field found ''sentiment''),
      score = (case get_field found ''score'' of Some (JNum x) \<Rightarrow> x | _ \<Rightarrow> 1 / 2),
      entity =
        (case get_field found ''entity'' of
           Some (JStr s) \<Rightarrow> if trim s \<noteq> [] then s else ''General''
         | _ \<Rightarrow> ''General'')\<rparr>"

text \<open>The callback of \<open>mentions.map\<close> under "Ensure all mentions have results".\<close>

definition reconcile :: "json list \<Rightarrow> Mention \<Rightarrow> js_error + SentimentAnalysis" where
  "reconcile parsed mention =
     (case find_parsed parsed (id_m mention) of
        Inl e \<Rightarrow> Inl e
      | Inr None \<Rightarrow> Inr (default_result mention)
      | Inr (Some found) \<Rightarrow> Inr (coerce found mention))"

text \<open>\<open>mentions.map\<close> with that callback: the first throw leaves the map.\<close>

fun map_reconcile :: "json list \<Rightarrow> Mention list \<Rightarrow> js_error + SentimentAnalysis list" where
  "map_reconcile parsed [] = Inr []"
| "map_reconcile parsed (m # ms) =
     (case reconcile parsed m of
        Inl e \<Rightarrow> Inl e
      | Inr r \<Rightarrow>
          (case map_reconcile parsed ms of
             Inl e \<Rightarrow> Inl e
           | Inr rs \<Rightarrow> Inr (r # rs)))"

text \<open>
  The body of the outer \<open>try\<close>. The inner \<open>try\<close> returns the whole-batch default when
  \<open>JSON.parse\<close> throws or the value is not an array.
\<close>

fun try_body :: "gen_outcome \<Rightarrow> Mention list \<Rightarrow> js_error + SentimentAnalysis list" where
  "try_body (Rejects s) mentions = Inl (ApiError s)"
| "try_body (Responds None) mentions = Inr (map default_result mentions)"
| "try_body (Responds (Some (JArr parsed))) mentions = map_reconcile parsed mentions"
| "try_body (Responds (Some v)) mentions = Inr (map default_result mentions)"

text \<open>\<open>!apiKey\<close>: the environment variable is unset or empty.\<close>

fun no_key :: "string option \<Rightarrow> bool" where
  "no_key None = True"
| "no_key (Some k) = (k = [])"

text \<open>
  \<open>analyzeBatch(mentions, retryCount)\<close>. \<open>gen n\<close> is the outcome of the call to the
  external model that is made when \<open>n\<close> calls have been made before. Every path of the
  source returns a list: the \<open>catch\<close> of the outer \<open>try\<close> handles each error of its body.
\<close>

function analyzeBatch ::
  "string option \<Rightarrow> (nat \<Rightarrow> gen_outcome) \<Rightarrow> Mention list \<Rightarrow> nat \<Rightarrow> World
     \<Rightarrow> SentimentAnalysis list \<times> World" where
  "analyzeBatch apiKey gen mentions retryCount w =
     (if no_key apiKey then (map nokey_result mentions, w)
      else
        (case try_body (gen (calls w)) mentions of
           Inr results \<Rightarrow> (results, w\<lparr>calls := calls w + 1\<rparr>)
         | Inl error \<Rightarrow>
             if status error = Some 429 \<and> retryCount < 3 then
               analyzeBatch apiKey gen mentions (retryCount + 1)
                 (sleep (2 ^ retryCount * 15000) (w\<lparr>calls := calls w + 1\<rparr>))
             else (map default_result mentions, w\<lparr>calls := calls w + 1\<rparr>)))"
  by pat_completeness auto
termination
  by (relation "measure (\<lambda>(apiKey, gen, mentions, retryCount, w). 3 - retryCount)") auto

declare analyzeBatch.simps [simp del]

section \<open>The upload handler\<close>

subsection \<open>Row normaliser (\<open>parser.on('data')\<close>)\<close>

text \<open>
  A parsed CSV row: its columns in header order, each with its text. The header names of
  one row are distinct.
\<close>

type_synonym RawRow = "(string \<times> string) list"

definition dateKeys :: "string list" where
  "dateKeys =
     [''date'', ''publish_date'', ''created_at'', ''timestamp'', ''published_at'',
      ''time'', ''created'', ''published'', ''tanggal'', ''waktu'']"

text \<open>\<open>toLowerCase\<close> on code units below 256: A to Z, and 192 to 222 without 215.\<close>

definition lower_char :: "char \<Rightarrow> char" where
  "lower_char c =
     (let n = (of_char c :: nat)
      in if (65 \<le> n \<and> n \<le> 90) \<or> (192 \<le> n \<and> n \<le> 222 \<and> n \<noteq> 215)
         then char_of (n + 32) else c)"

definition toLowerCase :: "string \<Rightarrow> string" where
  "toLowerCase s = map lower_char s"

text \<open>\<open>Object.keys(row).find(k => dateKeys.includes(k.toLowerCase().trim()))\<close>\<close>

definition foundDateKey :: "RawRow \<Rightarrow> string option" where
  "foundDateKey row = find (\<lambda>k. trim (toLowerCase k) \<in> set dateKeys) (map fst row)"

text \<open>\<open>s.split(sep)[0]\<close>: the text before the first \<open>sep\<close>, all of it when there is none.\<close>

definition split_first :: "char \<Rightarrow> string \<Rightarrow> string" where
  "split_first sep s = takeWhile (\<lambda>c. c \<noteq> sep) s"

definition is_digit :: "char \<Rightarrow> bool" where
  "is_digit c = (c \<in> set ''0123456789'')"

text \<open>The regular expression \<open>/^\d{4}-\d{2}-\d{2}/\<close>.\<close>

fun matches_ymd :: "string \<Rightarrow> bool" where
  "matches_ymd (y1 # y2 # y3 # y4 # h1 # m1 # m2 # h2 # d1 # d2 # rest) =
     (is_digit y1 \<and> is_digit y2 \<and> is_digit y3 \<and> is_digit y4 \<and> h1 = CHR ''-''
      \<and> is_digit m1 \<and> is_digit m2 \<and> h2 = CHR ''-'' \<and> is_digit d1 \<and> is_digit d2)"
| "matches_ymd s = False"

definition normalizeDate :: "string \<Rightarrow> string" where
  "normalizeDate rawDate =
     (let normalizedDate = split_first CHR '' '' (split_first CHR ''T'' rawDate)
      in if matches_ymd normalizedDate then take 10 normalizedDate else normalizedDate)"

text \<open>
  \<open>rawDate\<close>: the text of the found column, else \<open>new Date().toISOString()\<close>, which is
  the parameter \<open>now\<close>. \<open>String(undefined)\<close> is the text \<open>undefined\<close>.
\<close>

definition rawDate :: "string \<Rightarrow> RawRow \<Rightarrow> string" where
  "rawDate now row =
     (case foundDateKey row of
        None \<Rightarrow> now
      | Some k \<Rightarrow>
          if k \<noteq> [] then (case map_of row k of Some v \<Rightarrow> v | None \<Rightarrow> ''undefined'')
          else now)"

text \<open>\<open>a || b\<close> on values that are a string or \<open>undefined\<close>: the empty string is falsy.\<close>

fun truthy :: "string option \<Rightarrow> bool" where
  "truthy None = False"
| "truthy (Some v) = (v \<noteq> [])"

definition js_or :: "string option \<Rightarrow> string option \<Rightarrow> string option" where
  "js_or a b = (if truthy a then a else b)"

text \<open>
  \<open>row.content || row.text || row.Review || row.comment || row.caption || ''\<close>
\<close>

definition row_content :: "RawRow \<Rightarrow> string" where
  "row_content row =
     (case js_or (js_or (js_or (js_or (js_or (map_of row ''content'') (map_of row ''text''))
                                  (map_of row ''Review''))
                           (map_of row ''comment''))
                    (map_of row ''caption''))
              (Some [])
      of Some v \<Rightarrow> v | None \<Rightarrow> [])"

text \<open>The decimal text of a number, for \<open>`csv-row-${rowCount}`\<close>.\<close>

fun show_nat :: "nat \<Rightarrow> string" where
  "show_nat n =
     (if n < 10 then [''0123456789'' ! n]
      else show_nat (n div 10) @ [''0123456789'' ! (n mod 10)])"

declare show_nat.simps [simp del]

text \<open>Reading a decimal text back, to show that \<open>show_nat\<close> is injective.\<close>

fun digit_value :: "char \<Rightarrow> nat" where
  "digit_value c = (case find (\<lambda>d. ''0123456789'' ! d = c) [0..<10] of Some d \<Rightarrow> d | None \<Rightarrow> 0)"

definition read_nat :: "string \<Rightarrow> nat" where
  "read_nat s = foldl (\<lambda>a c. 10 * a + digit_value c) 0 s"

text \<open>
  One \<open>data\<close> event, with \<open>rowCount\<close> already incremented: the mention pushed, or
  nothing when the content is empty.
\<close>

definition on_data :: "string \<Rightarrow> string \<Rightarrow> nat \<Rightarrow> RawRow \<Rightarrow> Mention option" where
  "on_data platform now rowCount row =
     (let normalizedDate = normalizeDate (rawDate now row);
          content = row_content row
      in if content \<noteq> [] then
           Some \<lparr>id_m = ''csv-row-'' @ show_nat rowCount, source_m = platform,
                 content_m = content, date_m = normalizedDate\<rparr>
         else None)"

text \<open>All \<open>data\<close> events of one upload; \<open>clock n\<close> is the time text read at row \<open>n\<close>.\<close>

fun on_rows :: "string \<Rightarrow> (nat \<Rightarrow> string) \<Rightarrow> nat \<Rightarrow> RawRow list \<Rightarrow> Mention list" where
  "on_rows platform clock rowCount [] = []"
| "on_rows platform clock rowCount (row # rows) =
     (case on_data platform (clock (rowCount + 1)) (rowCount + 1) row of
        None \<Rightarrow> on_rows platform clock (rowCount + 1) rows
      | Some mention \<Rightarrow> mention # on_rows platform clock (rowCount + 1) rows)"

text \<open>A text that is exactly a date written YYYY-MM-DD.\<close>

definition is_ymd :: "string \<Rightarrow> bool" where
  "is_ymd d = (length d = 10 \<and> matches_ymd d)"



subsection \<open>Batch loop (\<open>parser.on('end')\<close>)\<close>

definition BATCH_SIZE :: nat where
  "BATCH_SIZE = 15"

text \<open>\<open>xs.slice(s, e)\<close> for \<open>0 \<le> s \<le> e\<close>; both ends are clipped to the length.\<close>

definition slice :: "'a list \<Rightarrow> nat \<Rightarrow> nat \<Rightarrow> 'a list" where
  "slice xs s e = take (e - s) (drop s xs)"

text \<open>
  The \<open>for\<close> loop over \<open>i\<close>, with the list \<open>analyses\<close> it pushes to and the world it
  acts on.
\<close>

function batch_loop ::
  "string option \<Rightarrow> (nat \<Rightarrow> gen_outcome) \<Rightarrow> Mention list \<Rightarrow> nat \<Rightarrow> SentimentAnalysis list
     \<Rightarrow> World \<Rightarrow> SentimentAnalysis list \<times> World" where
  "batch_loop apiKey gen mentionsToAnalyze i analyses w =
     (if i < length mentionsToAnalyze then
        (let batch = slice mentionsToAnalyze i (i + BATCH_SIZE);
             (batchResults, w1) = analyzeBatch apiKey gen batch 0 w;
             w2 = (if i + BATCH_SIZE < length mentionsToAnalyze then sleep 12000 w1 else w1)
         in batch_loop apiKey gen mentionsToAnalyze (i + BATCH_SIZE) (analyses @ batchResults) w2)
      else (analyses, w))"
  by pat_completeness auto
termination
  by (relation "measure (\<lambda>(apiKey, gen, ms, i, analyses, w). length ms - i)")
    (auto simp: BATCH_SIZE_def)

declare batch_loop.simps [simp del]

text \<open>
  The batcher in the specification's words: the reviews are cut into consecutive
  batches of a fixed size, the last one possibly smaller, the batches go to the
  classifier one after the other with a wait of 12 seconds between two of them, and the
  results are concatenated.
\<close>

function partition_batches :: "nat \<Rightarrow> 'a list \<Rightarrow> 'a list list" where
  "partition_batches n xs =
     (if n = 0 \<or> xs = [] then [] else take n xs # partition_batches n (drop n xs))"
  by pat_completeness auto
termination
  by (relation "measure (\<lambda>(n, xs). length xs)") auto

declare partition_batches.simps [simp del]

fun dispatch_sequentially ::
  "string option \<Rightarrow> (nat \<Rightarrow> gen_outcome) \<Rightarrow> Mention list list \<Rightarrow> World
     \<Rightarrow> SentimentAnalysis list \<times> World" where
  "dispatch_sequentially apiKey gen [] w = ([], w)"
| "dispatch_sequentially apiKey gen (b # bs) w =
     (let (r, w1) = analyzeBatch apiKey gen b 0 w;
          w2 = (if bs \<noteq> [] then sleep 12000 w1 else w1);
          (rs, w3) = dispatch_sequentially apiKey gen bs w2
      in (r @ rs, w3))"

subsection \<open>Merge and bulk insert\<close>

record Review =
  platform_r :: string
  content_r :: string
  date_r :: string
  sentiment_r :: sentiment_label
  entity_r :: string
  score_r :: real

text \<open>The callback of \<open>mentionsToAnalyze.map\<close> that builds \<open>reviewsToStore\<close>.\<close>

definition to_store :: "SentimentAnalysis list \<Rightarrow> Mention \<Rightarrow> Review" where
  "to_store analyses mention =
     (let analysis = find (\<lambda>a. mentionId a = id_m mention) analyses
      in \<lparr>platform_r = source_m mention,
          content_r = content_m mention,
          date_r = date_m mention,
          sentiment_r = (case analysis of Some a \<Rightarrow> sentiment a | None \<Rightarrow> Neutral),
          entity_r =
            (case analysis of
               Some a \<Rightarrow> if entity a \<noteq> [] then entity a else ''General''
             | None \<Rightarrow> ''General''),
          score_r =
            (case analysis of Some a \<Rightarrow> if score a \<noteq> 0 then score a else 0 | None \<Rightarrow> 0)\<rparr>)"

text \<open>
  The transaction: each \<open>insert.run(item)\<close> either appends the row to the table or
  throws, and the \<open>catch\<close> around it logs and goes on. Whether an insert throws is
  the parameter \<open>insert_throws\<close>.
\<close>

fun transaction :: "(Review \<Rightarrow> bool) \<Rightarrow> Review list \<Rightarrow> Review list \<Rightarrow> Review list" where
  "transaction insert_throws [] table = table"
| "transaction insert_throws (item # items) table =
     (if insert_throws item then transaction insert_throws items table
      else transaction insert_throws items (table @ [item]))"

text \<open>
  The \<open>end\<close> handler: the number in the success message
  (\<open>reviewsToStore.length\<close>), the table after the transaction, and the world.
\<close>

definition on_end ::
  "string option \<Rightarrow> (nat \<Rightarrow> gen_outcome) \<Rightarrow> (Review \<Rightarrow> bool) \<Rightarrow> Mention list \<Rightarrow> Review list
     \<Rightarrow> World \<Rightarrow> nat \<times> Review list \<times> World" where
  "on_end apiKey gen insert_throws mentionsToAnalyze table w =
     (let (analyses, w1) = batch_loop apiKey gen mentionsToAnalyze 0 [] w;
          reviewsToStore = map (to_store analyses) mentionsToAnalyze;
          table1 = transaction insert_throws reviewsToStore table
      in (length reviewsToStore, table1, w1))"

section \<open>The read endpoints\<close>

text \<open>
  A query parameter as Express hands it over: absent, one string, or something else
  (an array or an object, for a repeated or bracketed parameter).
\<close>

datatype qparam = QUndefined | QString string | QOther

fun sentiment_text :: "sentiment_label \<Rightarrow> string" where
  "sentiment_text Positive = ''positive''"
| "sentiment_text Neutral = ''neutral''"
| "sentiment_text Negative = ''negative''"

text \<open>
  \<open>GET /api/data\<close>: \<open>SELECT * FROM reviews [WHERE sentiment = ?] ORDER BY date DESC\<close>.
  Texts compare byte by byte. Rows of equal date stay in the order of the table, as
  the engine's sorter leaves them: the sort is stable in the descending direction.
\<close>

definition list_reviews :: "qparam \<Rightarrow> Review list \<Rightarrow> Review list" where
  "list_reviews sentimentFilter table =
     (let selected =
        (if sentimentFilter \<in> set [QString ''positive'', QString ''negative'', QString ''neutral'']
         then filter (\<lambda>r. QString (sentiment_text (sentiment_r r)) = sentimentFilter) table
         else table)
      in rev (sort_key date_r (rev selected)))"

text \<open>
  \<open>GET /api/trends\<close>. Two values come from SQLite and are parameters:
  \<open>cutoff\<close> is \<open>strftime('%Y-%m-%d', 'now', '-6 months')\<close>, and \<open>ym d\<close> is
  \<open>strftime('%Y-%m', d)\<close>, \<open>None\<close> for NULL. For a text \<open>d\<close> that is a calendar date
  written YYYY-MM-DD, \<open>ym d\<close> is its first seven characters. NULL sorts first.
\<close>

record TrendRow =
  month_t :: "string option"
  count_t :: nat
  positive_t :: nat
  neutral_t :: nat
  negative_t :: nat

definition count_sentiment :: "sentiment_label \<Rightarrow> Review list \<Rightarrow> nat" where
  "count_sentiment s rs = length (filter (\<lambda>r. sentiment_r r = s) rs)"

definition trends :: "(string \<Rightarrow> string option) \<Rightarrow> string \<Rightarrow> Review list \<Rightarrow> TrendRow list" where
  "trends ym cutoff table =
     (let selected = filter (\<lambda>r. cutoff \<le> date_r r) table;
          months = sort (remdups (map (\<lambda>r. ym (date_r r)) selected))
      in map (\<lambda>m.
           (let grp = filter (\<lambda>r. ym (date_r r) = m) selected
            in \<lparr>month_t = m, count_t = length grp,
                positive_t = count_sentiment Positive grp,
                neutral_t = count_sentiment Neutral grp,
                negative_t = count_sentiment Negative grp\<rparr>)) months)"

section \<open>Example inputs\<close>

definition w0 :: World where
  "w0 = \<lparr>calls = 0, sleeps = []\<rparr>"

definition demo_batch :: "Mention list" where
  "demo_batch =
     [\<lparr>id_m = ''csv-row-1'', source_m = ''CSV'', content_m = ''enak'', date_m = ''2025-09-15''\<rparr>,
      \<lparr>id_m = ''csv-row-2'', source_m = ''CSV'', content_m = ''lelet'', date_m = ''2025-09-16''\<rparr>]"

text \<open>
  A model that is rate limited at the first call and then answers with two elements
  for the second review, one for a review that was not asked, and none for the first.
\<close>

definition demo_gen :: "nat \<Rightarrow> gen_outcome" where
  "demo_gen n =
     (if n = 0 then Rejects (Some 429)
      else Responds (Some (JArr
        [JObj [(''mentionId'', JStr ''csv-row-2''), (''sentiment'', JStr ''negative''),
               (''score'', JNum (1 / 5)), (''entity'', JStr ''Service'')],
         JObj [(''mentionId'', JStr ''csv-row-2''), (''sentiment'', JStr ''positive'')],
         JObj [(''mentionId'', JStr ''csv-row-9'')]])))"

text \<open>A model that answers with a score of 7 and with a topic outside the taxonomy.\<close>

definition loud_gen :: "nat \<Rightarrow> gen_outcome" where
  "loud_gen n =
     Responds (Some (JArr
       [JObj [(''mentionId'', JStr ''csv-row-1''), (''sentiment'', JStr ''positive''),
              (''score'', JNum 7), (''entity'', JStr ''Taste'')]]))"

text \<open>A model that answers with an entity of two spaces.\<close>

definition blank_gen :: "nat \<Rightarrow> gen_outcome" where
  "blank_gen n =
     Responds (Some (JArr
       [JObj [(''mentionId'', JStr ''csv-row-1''), (''sentiment'', JStr ''positive''),
              (''score'', JNum (4 / 5)), (''entity'', JStr ''  '')]]))"

text \<open>An upload of seventeen reviews.\<close>

definition demo_upload :: "Mention list" where
  "demo_upload =
     map (\<lambda>n. \<lparr>id_m = ''csv-row-'' @ show_nat n, source_m = ''CSV'', content_m = ''ok'',
               date_m = ''2025-09-15''\<rparr>) [1..<18]"

text \<open>A table with one review in each of eight consecutive months.\<close>

definition demo_table :: "Review list" where
  "demo_table =
     map (\<lambda>(d, s). \<lparr>platform_r = ''CSV'', content_r = ''ok'', date_r = d, sentiment_r = s,
                    entity_r = ''General'', score_r = 1 / 2\<rparr>)
       [(''2025-02-20'', Neutral), (''2025-03-20'', Positive), (''2025-04-20'', Negative),
        (''2025-05-20'', Positive), (''2025-06-20'', Neutral), (''2025-07-20'', Positive),
        (''2025-08-20'', Negative), (''2025-09-10'', Positive)]"

text \<open>A table with several reviews in March 2025, one of them before the 15th.\<close>

definition demo_march :: "Review list" where
  "demo_march =
     map (\<lambda>(d, s). \<lparr>platform_r = ''CSV'', content_r = ''ok'', date_r = d, sentiment_r = s,
                    entity_r = ''General'', score_r = 1 / 2\<rparr>)
       [(''2025-03-20'', Positive), (''2025-03-21'', Negative), (''2025-02-20'', Neutral),
        (''2025-03-25'', Negative), (''2025-03-10'', Positive)]"

section \<open>Properties of the classifier\<close>

lemma default_result_mentionId [simp]: "mentionId (default_result m) = id_m m"
  by (simp add: default_result_def)

lemma nokey_result_mentionId [simp]: "mentionId (nokey_result m) = id_m m"
  by (simp add: nokey_result_def)

lemma find_parsed_field:
  "find_parsed ps i = Inr (Some p) \<Longrightarrow> get_field p ''mentionId'' = Some (JStr i)"
proof (induction ps)
  case Nil
  then show ?case by simp
next
  case (Cons q qs)
  show ?case
  proof (cases q)
    case (JObj kvs)
    with Cons show ?thesis by (auto split: if_splits)
  qed (use Cons in \<open>auto split: if_splits\<close>)
qed

lemma coerce_mentionId:
  "get_field found ''mentionId'' = Some (JStr (id_m m)) \<Longrightarrow> mentionId (coerce found m) = id_m m"
  by (simp add: coerce_def)

lemma reconcile_mentionId:
  "reconcile parsed m = Inr r \<Longrightarrow> mentionId r = id_m m"
  by (auto simp: reconcile_def coerce_mentionId
      split: sum.splits option.splits dest: find_parsed_field)

lemma map_reconcile_mentionId:
  "map_reconcile parsed ms = Inr rs \<Longrightarrow> map mentionId rs = map id_m ms"
proof (induction ms arbitrary: rs)
  case Nil
  then show ?case by simp
next
  case (Cons m ms)
  then show ?case
    by (auto split: sum.splits dest: reconcile_mentionId)
qed

lemma try_body_mentionId:
  "try_body out ms = Inr rs \<Longrightarrow> map mentionId rs = map id_m ms"
proof (cases out)
  case (Rejects s)
  assume "try_body out ms = Inr rs"
  with Rejects show ?thesis by simp
next
  case (Responds v)
  assume h: "try_body out ms = Inr rs"
  show ?thesis
  proof (cases v)
    case None
    with Responds h show ?thesis by auto
  next
    case (Some j)
    with Responds h show ?thesis
      by (cases j) (auto dest: map_reconcile_mentionId)
  qed
qed

lemma analyzeBatch_mentionIds:
  "map mentionId (fst (analyzeBatch apiKey gen ms rc w)) = map id_m ms"
proof (induction apiKey gen ms rc w rule: analyzeBatch.induct)
  case (1 apiKey gen mentions retryCount w)
  show ?case
  proof (cases "no_key apiKey")
    case True
    then show ?thesis
      by (subst analyzeBatch.simps) simp
  next
    case nk: False
    show ?thesis
    proof (cases "try_body (gen (calls w)) mentions")
      case (Inr results)
      with nk show ?thesis
        by (subst analyzeBatch.simps) (simp add: try_body_mentionId)
    next
      case (Inl error)
      show ?thesis
      proof (cases "status error = Some 429 \<and> retryCount < 3")
        case True
        with nk Inl "1.IH" [OF nk Inl True] show ?thesis
          by (subst analyzeBatch.simps) simp
      next
        case False
        with nk Inl show ?thesis
          by (subst analyzeBatch.simps) auto
      qed
    qed
  qed
qed


subsection \<open>The ids of one upload are distinct\<close>

lemma digit_value_nth: "d < 10 \<Longrightarrow> digit_value (''0123456789'' ! d) = d"
proof -
  assume "d < 10"
  then have "d = 0 \<or> d = 1 \<or> d = 2 \<or> d = 3 \<or> d = 4 \<or> d = 5 \<or> d = 6 \<or> d = 7
      \<or> d = 8 \<or> d = 9"
    by arith
  then show ?thesis
    by (elim disjE) (simp_all add: upt_rec)
qed

lemma read_show_nat: "read_nat (show_nat n) = n"
proof (induction n rule: show_nat.induct)
  case (1 n)
  show ?case
  proof (cases "n < 10")
    case True
    then show ?thesis
      by (subst show_nat.simps) (simp add: read_nat_def digit_value_nth del: digit_value.simps)
  next
    case False
    with 1 have "read_nat (show_nat (n div 10)) = n div 10" by simp
    with False show ?thesis
      by (subst show_nat.simps)
        (simp add: read_nat_def digit_value_nth del: digit_value.simps)
  qed
qed

lemma show_nat_inj: "show_nat a = show_nat b \<Longrightarrow> a = b"
  by (metis read_show_nat)

lemma on_rows_ids:
  "m \<in> set (on_rows platform clock rc rows) \<Longrightarrow>
     \<exists>k>rc. id_m m = ''csv-row-'' @ show_nat k"
proof (induction rows arbitrary: rc)
  case Nil
  then show ?case by simp
next
  case (Cons row rows)
  show ?case
  proof (cases "on_data platform (clock (rc + 1)) (rc + 1) row")
    case None
    with Cons.prems have "m \<in> set (on_rows platform clock (rc + 1) rows)" by simp
    from Cons.IH [OF this] obtain k where "k > rc + 1" "id_m m = ''csv-row-'' @ show_nat k"
      by blast
    then show ?thesis by (intro exI [of _ k]) simp
  next
    case (Some x)
    then have x: "id_m x = ''csv-row-'' @ show_nat (rc + 1)"
      by (auto simp: on_data_def Let_def split: if_splits)
    from Cons.prems Some have "m = x \<or> m \<in> set (on_rows platform clock (rc + 1) rows)"
      by simp
    then show ?thesis
    proof
      assume "m = x"
      with x show ?thesis by (intro exI [of _ "rc + 1"]) simp
    next
      assume "m \<in> set (on_rows platform clock (rc + 1) rows)"
      from Cons.IH [OF this] obtain k where "k > rc + 1" "id_m m = ''csv-row-'' @ show_nat k"
        by blast
      then show ?thesis by (intro exI [of _ k]) simp
    qed
  qed
qed

lemma on_rows_distinct: "distinct (map id_m (on_rows platform clock rc rows))"
proof (induction rows arbitrary: rc)
  case Nil
  then show ?case by simp
next
  case (Cons row rows)
  show ?case
  proof (cases "on_data platform (clock (rc + 1)) (rc + 1) row")
    case None
    with Cons.IH [of "rc + 1"] show ?thesis by simp
  next
    case (Some x)
    then have x: "id_m x = ''csv-row-'' @ show_nat (rc + 1)"
      by (auto simp: on_data_def Let_def split: if_splits)
    have "id_m x \<notin> id_m ` set (on_rows platform clock (rc + 1) rows)"
    proof
      assume "id_m x \<in> id_m ` set (on_rows platform clock (rc + 1) rows)"
      then obtain m where m: "m \<in> set (on_rows platform clock (rc + 1) rows)" "id_m m = id_m x"
        by auto
      from on_rows_ids [OF m(1)] obtain k where "k > rc + 1" "id_m m = ''csv-row-'' @ show_nat k"
        by blast
      with m(2) x have "show_nat k = show_nat (rc + 1)" by simp
      with \<open>k > rc + 1\<close> show False by (auto dest: show_nat_inj)
    qed
    with Some Cons.IH [of "rc + 1"] show ?thesis by simp
  qed
qed

lemma distinct_count_one:
  "distinct xs \<Longrightarrow> x \<in> set xs \<Longrightarrow> length (filter (\<lambda>y. y = x) xs) = 1"
  by (induction xs) (auto simp: filter_empty_conv)

lemma length_filter_map:
  "length (filter (\<lambda>r. f r = x) rs) = length (filter (\<lambda>y. y = x) (map f rs))"
  by (induction rs) auto

text \<open>
  Claim C1. Whatever the model answers, \<open>analyzeBatch\<close> returns as many results as it
  was given reviews, and the result at each position carries the id of the review at
  that position. So when the ids of the reviews are distinct, each review has exactly
  one result with its id; and they are distinct in every batch that the upload handler
  cuts from the reviews of one upload, whose ids are \<open>csv-row-n\<close> with the row number.
\<close>

theorem analyzeBatch_one_result_per_review:
  "length (fst (analyzeBatch apiKey gen ms rc w)) = length ms
   \<and> map mentionId (fst (analyzeBatch apiKey gen ms rc w)) = map id_m ms
   \<and> (distinct (map id_m ms) \<longrightarrow>
        (\<forall>m \<in> set ms.
           length (filter (\<lambda>r. mentionId r = id_m m) (fst (analyzeBatch apiKey gen ms rc w)))
           = 1))
   \<and> (\<forall>m \<in> set (slice (on_rows platform clock 0 rows) i (i + BATCH_SIZE)).
         length (filter (\<lambda>r. mentionId r = id_m m)
                   (fst (analyzeBatch apiKey gen
                           (slice (on_rows platform clock 0 rows) i (i + BATCH_SIZE)) rc w)))
         = 1)"
proof -
  have ids: "map mentionId (fst (analyzeBatch apiKey gen b rc w)) = map id_m b" for b
    by (rule analyzeBatch_mentionIds)
  have len: "length (fst (analyzeBatch apiKey gen ms rc w)) = length ms"
    using ids [of ms] by (metis length_map)
  have one: "length (filter (\<lambda>r. mentionId r = id_m m) (fst (analyzeBatch apiKey gen b rc w))) = 1"
    if "distinct (map id_m b)" and "m \<in> set b" for m b
  proof -
    have "length (filter (\<lambda>r. mentionId r = id_m m) (fst (analyzeBatch apiKey gen b rc w)))
          = length (filter (\<lambda>y. y = id_m m) (map id_m b))"
      using ids [of b] by (simp add: length_filter_map [of mentionId])
    also have "\<dots> = 1"
      using that by (intro distinct_count_one) auto
    finally show ?thesis .
  qed
  let ?batch = "slice (on_rows platform clock 0 rows) i (i + BATCH_SIZE)"
  have "map id_m ?batch = take BATCH_SIZE (drop i (map id_m (on_rows platform clock 0 rows)))"
    by (simp add: slice_def take_map drop_map)
  then have db: "distinct (map id_m ?batch)"
    using on_rows_distinct [of platform clock 0 rows] by simp
  from ids [of ms] len one [of ms] one [OF db] show ?thesis by blast
qed

theorem analyzeBatch_one_result_per_review_witness:
  "distinct (map id_m demo_batch)
   \<and> fst (analyzeBatch (Some ''key'') demo_gen demo_batch 0 w0) =
       [\<lparr>mentionId = ''csv-row-1'', sentiment = Neutral, score = 1 / 2, entity = ''General''\<rparr>,
        \<lparr>mentionId = ''csv-row-2'', sentiment = Negative, score = 1 / 5, entity = ''Service''\<rparr>]
   \<and> length (filter (\<lambda>r. mentionId r = ''csv-row-2'')
                 (fst (analyzeBatch (Some ''key'') demo_gen demo_batch 0 w0))) = 1"
proof -
  have d: "distinct (map id_m demo_batch)"
    by (simp add: demo_batch_def)
  have m: "\<lparr>id_m = ''csv-row-2'', source_m = ''CSV'', content_m = ''lelet'',
             date_m = ''2025-09-16''\<rparr> \<in> set demo_batch"
    by (simp add: demo_batch_def)
  have v: "fst (analyzeBatch (Some ''key'') demo_gen demo_batch 0 w0) =
       [\<lparr>mentionId = ''csv-row-1'', sentiment = Neutral, score = 1 / 2, entity = ''General''\<rparr>,
        \<lparr>mentionId = ''csv-row-2'', sentiment = Negative, score = 1 / 5, entity = ''Service''\<rparr>]"
    by (simp add: analyzeBatch.simps reconcile_def coerce_def default_result_def
      normalizeSentiment_def sleep_def trim_def is_space_def w0_def demo_batch_def demo_gen_def)
  from d m analyzeBatch_one_result_per_review [of "Some ''key''" demo_gen demo_batch 0 w0]
  have "length (filter (\<lambda>r. mentionId r = ''csv-row-2'')
                 (fst (analyzeBatch (Some ''key'') demo_gen demo_batch 0 w0))) = 1"
    by fastforce
  with d v show ?thesis by blast
qed

lemma find_parsed_TypeError: "find_parsed ps i = Inl e \<Longrightarrow> e = TypeError"
proof (induction ps)
  case Nil
  then show ?case by simp
next
  case (Cons q qs)
  then show ?case by (cases q) (auto split: if_splits)
qed

lemma reconcile_TypeError: "reconcile ps m = Inl e \<Longrightarrow> e = TypeError"
  by (auto simp: reconcile_def split: sum.splits option.splits dest: find_parsed_TypeError)

lemma map_reconcile_TypeError: "map_reconcile ps ms = Inl e \<Longrightarrow> e = TypeError"
proof (induction ms)
  case Nil
  then show ?case by simp
next
  case (Cons m ms)
  then show ?case by (auto split: sum.splits dest: reconcile_TypeError)
qed

lemma try_body_Inl:
  "try_body out ms = Inl e \<Longrightarrow> (\<exists>s. out = Rejects s \<and> e = ApiError s) \<or> e = TypeError"
proof (cases out)
  case (Rejects s)
  assume "try_body out ms = Inl e"
  with Rejects show ?thesis by simp
next
  case (Responds v)
  assume h: "try_body out ms = Inl e"
  show ?thesis
  proof (cases v)
    case None
    with Responds h show ?thesis by simp
  next
    case (Some j)
    with Responds h show ?thesis
      by (cases j) (auto dest: map_reconcile_TypeError)
  qed
qed

lemma try_body_429:
  "try_body out ms = Inl e \<Longrightarrow> status e = Some 429 \<Longrightarrow> out = Rejects (Some 429)"
  by (auto dest: try_body_Inl)

lemma map_reconcile_elem:
  "map_reconcile ps ms = Inr rs \<Longrightarrow> r \<in> set rs \<Longrightarrow> \<exists>m \<in> set ms. reconcile ps m = Inr r"
proof (induction ms arbitrary: rs)
  case Nil
  then show ?case by simp
next
  case (Cons m ms)
  then show ?case by (auto split: sum.splits)
qed

lemma analyzeBatch_source:
  assumes "\<not> no_key apiKey"
  shows "fst (analyzeBatch apiKey gen ms rc w) = map default_result ms
         \<or> (\<exists>ps. gen (calls (snd (analyzeBatch apiKey gen ms rc w)) - 1) = Responds (Some (JArr ps))
                \<and> map_reconcile ps ms = Inr (fst (analyzeBatch apiKey gen ms rc w)))"
  using assms
proof (induction apiKey gen ms rc w rule: analyzeBatch.induct)
  case (1 apiKey gen mentions retryCount w)
  note nk = \<open>\<not> no_key apiKey\<close>
  show ?case
  proof (cases "try_body (gen (calls w)) mentions")
    case (Inr results)
    have ab: "analyzeBatch apiKey gen mentions retryCount w = (results, w\<lparr>calls := calls w + 1\<rparr>)"
      using nk Inr by (subst analyzeBatch.simps) simp
    show ?thesis
    proof (cases "gen (calls w)")
      case (Rejects s)
      with Inr show ?thesis by simp
    next
      case (Responds v)
      show ?thesis
      proof (cases v)
        case None
        with Responds Inr ab show ?thesis by auto
      next
        case (Some j)
        with Responds Inr ab show ?thesis by (cases j) auto
      qed
    qed
  next
    case (Inl error)
    show ?thesis
    proof (cases "status error = Some 429 \<and> retryCount < 3")
      case True
      have "analyzeBatch apiKey gen mentions retryCount w =
            analyzeBatch apiKey gen mentions (retryCount + 1)
              (sleep (2 ^ retryCount * 15000) (w\<lparr>calls := calls w + 1\<rparr>))"
        using nk Inl True by (subst analyzeBatch.simps) simp
      with "1.IH" [OF nk Inl True nk] show ?thesis by simp
    next
      case False
      with nk Inl show ?thesis
        by (subst analyzeBatch.simps) auto
    qed
  qed
qed

lemma reconcile_cases:
  "reconcile ps m = Inr r \<Longrightarrow>
     r = default_result m
     \<or> (\<exists>found. find_parsed ps (id_m m) = Inr (Some found) \<and> r = coerce found m)"
  by (auto simp: reconcile_def split: sum.splits option.splits)


lemma coerce_entity:
  "entity (coerce found m) = ''General''
   \<or> (get_field found ''entity'' = Some (JStr (entity (coerce found m)))
       \<and> trim (entity (coerce found m)) \<noteq> [])"
  by (auto simp: coerce_def split: option.splits json.splits)

lemma trim_empty_iff: "trim s = [] \<longleftrightarrow> (\<forall>c \<in> set s. is_space c)"
proof -
  have "trim s = [] \<longleftrightarrow> (\<forall>c \<in> set (dropWhile is_space s). is_space c)"
    by (simp add: trim_def)
  also have "\<dots> \<longleftrightarrow> dropWhile is_space s = []"
  proof
    assume a: "\<forall>c \<in> set (dropWhile is_space s). is_space c"
    show "dropWhile is_space s = []"
    proof (rule ccontr)
      assume "dropWhile is_space s \<noteq> []"
      then have "\<not> is_space (hd (dropWhile is_space s))"
        by (rule hd_dropWhile)
      moreover have "hd (dropWhile is_space s) \<in> set (dropWhile is_space s)"
        using \<open>dropWhile is_space s \<noteq> []\<close> by simp
      ultimately show False using a by blast
    qed
  qed (auto dest: set_dropWhileD)
  also have "\<dots> \<longleftrightarrow> (\<forall>c \<in> set s. is_space c)"
    by simp
  finally show ?thesis .
qed

lemma analyzeBatch_elem:
  assumes nk: "\<not> no_key apiKey"
    and r: "r \<in> set (fst (analyzeBatch apiKey gen ms rc w))"
  shows "(\<exists>m \<in> set ms. r = default_result m)
         \<or> (\<exists>ps found m. gen (calls (snd (analyzeBatch apiKey gen ms rc w)) - 1)
                  = Responds (Some (JArr ps))
                \<and> find_parsed ps (mentionId r) = Inr (Some found) \<and> r = coerce found m)"
proof -
  let ?rs = "fst (analyzeBatch apiKey gen ms rc w)"
  let ?n = "calls (snd (analyzeBatch apiKey gen ms rc w)) - 1"
  from analyzeBatch_source [OF nk, of gen ms rc w]
  consider (dflt) "?rs = map default_result ms"
    | (resp) ps where "gen ?n = Responds (Some (JArr ps))" "map_reconcile ps ms = Inr ?rs"
    by blast
  then show ?thesis
  proof cases
    case dflt
    with r show ?thesis by auto
  next
    case resp
    from map_reconcile_elem [OF resp(2) r] obtain m
      where m: "m \<in> set ms" "reconcile ps m = Inr r" by blast
    from reconcile_mentionId [OF m(2)] have id: "mentionId r = id_m m" .
    from reconcile_cases [OF m(2)] show ?thesis
    proof
      assume "r = default_result m"
      with m show ?thesis by blast
    next
      assume "\<exists>found. find_parsed ps (id_m m) = Inr (Some found) \<and> r = coerce found m"
      with resp(1) id show ?thesis by auto
    qed
  qed
qed


lemma analyzeBatch_no_key:
  "no_key apiKey \<Longrightarrow> analyzeBatch apiKey gen ms rc w = (map nokey_result ms, w)"
  by (subst analyzeBatch.simps) simp

lemma analyzeBatch_final:
  assumes "\<not> no_key apiKey"
  shows "fst (analyzeBatch apiKey gen ms rc w) =
           (case try_body (gen (calls (snd (analyzeBatch apiKey gen ms rc w)) - 1)) ms of
              Inr rs \<Rightarrow> rs
            | Inl e \<Rightarrow> map default_result ms)"
  using assms
proof (induction apiKey gen ms rc w rule: analyzeBatch.induct)
  case (1 apiKey gen mentions retryCount w)
  note nk = \<open>\<not> no_key apiKey\<close>
  show ?case
  proof (cases "try_body (gen (calls w)) mentions")
    case (Inr results)
    have "analyzeBatch apiKey gen mentions retryCount w = (results, w\<lparr>calls := calls w + 1\<rparr>)"
      using nk Inr by (subst analyzeBatch.simps) simp
    with Inr show ?thesis by simp
  next
    case (Inl error)
    show ?thesis
    proof (cases "status error = Some 429 \<and> retryCount < 3")
      case True
      have "analyzeBatch apiKey gen mentions retryCount w =
            analyzeBatch apiKey gen mentions (retryCount + 1)
              (sleep (2 ^ retryCount * 15000) (w\<lparr>calls := calls w + 1\<rparr>))"
        using nk Inl True by (subst analyzeBatch.simps) simp
      with "1.IH" [OF nk Inl True nk] show ?thesis by simp
    next
      case False
      have "analyzeBatch apiKey gen mentions retryCount w =
            (map default_result mentions, w\<lparr>calls := calls w + 1\<rparr>)"
        using nk Inl False by (subst analyzeBatch.simps) auto
      with Inl show ?thesis by simp
    qed
  qed
qed

lemma map_reconcile_nth:
  assumes "\<forall>m \<in> set ms. find_parsed ps (id_m m) \<noteq> Inl TypeError"
  shows "\<exists>rs. map_reconcile ps ms = Inr rs \<and> length rs = length ms
              \<and> (\<forall>i<length ms. reconcile ps (ms ! i) = Inr (rs ! i))"
  using assms
proof (induction ms)
  case Nil
  then show ?case by simp
next
  case (Cons m ms)
  from Cons.prems have "find_parsed ps (id_m m) \<noteq> Inl TypeError" by simp
  then have "\<exists>r. reconcile ps m = Inr r"
    by (cases "find_parsed ps (id_m m)")
      (auto dest: find_parsed_TypeError simp: reconcile_def split: option.splits)
  then obtain r where r: "reconcile ps m = Inr r" ..
  from Cons obtain rs where rs: "map_reconcile ps ms = Inr rs" "length rs = length ms"
    "\<forall>i<length ms. reconcile ps (ms ! i) = Inr (rs ! i)" by auto
  have "\<forall>i<length (m # ms). reconcile ps ((m # ms) ! i) = Inr ((r # rs) ! i)"
  proof (intro allI impI)
    fix i assume "i < length (m # ms)"
    then show "reconcile ps ((m # ms) ! i) = Inr ((r # rs) ! i)"
      using r rs(3) by (cases i) auto
  qed
  with r rs show ?case by simp
qed

lemma coerce_entity_accepts:
  "get_field found ''entity'' = Some (JStr s) \<Longrightarrow> \<not> (\<forall>c \<in> set s. is_space c) \<Longrightarrow>
     entity (coerce found m) = s"
  by (simp add: coerce_def trim_empty_iff)

lemma analyzeBatch_accepts_entity:
  assumes nk: "\<not> no_key apiKey"
    and g: "gen (calls (snd (analyzeBatch apiKey gen ms rc w)) - 1) = Responds (Some (JArr ps))"
    and ok: "\<forall>m \<in> set ms. find_parsed ps (id_m m) \<noteq> Inl TypeError"
    and i: "i < length ms"
    and f: "find_parsed ps (id_m (ms ! i)) = Inr (Some found)"
    and e: "get_field found ''entity'' = Some (JStr s)" "\<not> (\<forall>c \<in> set s. is_space c)"
  shows "entity (fst (analyzeBatch apiKey gen ms rc w) ! i) = s"
proof -
  from map_reconcile_nth [OF ok] obtain rs where rs: "map_reconcile ps ms = Inr rs"
    "\<forall>i<length ms. reconcile ps (ms ! i) = Inr (rs ! i)" by blast
  from analyzeBatch_final [OF nk, of gen ms rc w] g rs(1)
  have "fst (analyzeBatch apiKey gen ms rc w) = rs" by simp
  moreover from rs(2) i f have "rs ! i = coerce found (ms ! i)"
    by (auto simp: reconcile_def)
  ultimately show ?thesis using e by (simp add: coerce_entity_accepts)
qed

text \<open>
  Claim C4, as amended. The entity of every result of \<open>analyzeBatch\<close> is \<open>General\<close>, or
  it is the text that the element matched for that review in the model's last response
  carries as its \<open>entity\<close>, and that text contains a character that is not white space.
  Whenever the matched element has no \<open>entity\<close>, one that is not a string, or one that is
  empty or all white space, the entity is \<open>General\<close>. In the other direction: with an
  API key configured, when the last response is an array in which no \<open>null\<close> is read,
  the result at the position of a review whose matched element carries a text with a
  character that is not white space has exactly that text as its entity, whatever the
  text is; it is not checked against the taxonomy.
\<close>

theorem analyzeBatch_entity:
  "(r \<in> set (fst (analyzeBatch apiKey gen ms rc w)) \<longrightarrow>
      (entity r = ''General''
       \<or> (\<exists>ps found. gen (calls (snd (analyzeBatch apiKey gen ms rc w)) - 1)
               = Responds (Some (JArr ps))
             \<and> find_parsed ps (mentionId r) = Inr (Some found)
             \<and> get_field found ''entity'' = Some (JStr (entity r))
             \<and> \<not> (\<forall>c \<in> set (entity r). is_space c)))
      \<and> (\<forall>ps found. gen (calls (snd (analyzeBatch apiKey gen ms rc w)) - 1)
               = Responds (Some (JArr ps))
             \<and> find_parsed ps (mentionId r) = Inr (Some found)
             \<and> (\<forall>s. get_field found ''entity'' = Some (JStr s) \<longrightarrow> (\<forall>c \<in> set s. is_space c))
           \<longrightarrow> entity r = ''General''))
   \<and> (\<forall>ps found s i. \<not> no_key apiKey
          \<and> gen (calls (snd (analyzeBatch apiKey gen ms rc w)) - 1) = Responds (Some (JArr ps))
          \<and> (\<forall>m \<in> set ms. find_parsed ps (id_m m) \<noteq> Inl TypeError)
          \<and> i < length ms
          \<and> find_parsed ps (id_m (ms ! i)) = Inr (Some found)
          \<and> get_field found ''entity'' = Some (JStr s)
          \<and> \<not> (\<forall>c \<in> set s. is_space c)
        \<longrightarrow> mentionId (fst (analyzeBatch apiKey gen ms rc w) ! i) = id_m (ms ! i)
            \<and> entity (fst (analyzeBatch apiKey gen ms rc w) ! i) = s)"
proof -
  let ?n = "calls (snd (analyzeBatch apiKey gen ms rc w)) - 1"
  let ?rs = "fst (analyzeBatch apiKey gen ms rc w)"
  have first: "entity r = ''General''
      \<or> (\<exists>ps found. gen ?n = Responds (Some (JArr ps))
            \<and> find_parsed ps (mentionId r) = Inr (Some found)
            \<and> get_field found ''entity'' = Some (JStr (entity r))
            \<and> \<not> (\<forall>c \<in> set (entity r). is_space c))"
    if r: "r \<in> set ?rs"
  proof (cases "no_key apiKey")
    case True
    with r have "r \<in> set (map nokey_result ms)" by (simp add: analyzeBatch_no_key)
    then show ?thesis by (auto simp: nokey_result_def)
  next
    case False
    from analyzeBatch_elem [OF False r] show ?thesis
    proof
      assume "\<exists>m \<in> set ms. r = default_result m"
      then show ?thesis by (auto simp: default_result_def)
    next
      assume "\<exists>ps found m. gen ?n = Responds (Some (JArr ps))
                \<and> find_parsed ps (mentionId r) = Inr (Some found) \<and> r = coerce found m"
      then obtain ps found m where h: "gen ?n = Responds (Some (JArr ps))"
        "find_parsed ps (mentionId r) = Inr (Some found)" "r = coerce found m" by blast
      from coerce_entity [of found m] h show ?thesis
        unfolding trim_empty_iff by blast
    qed
  qed
  have second: "entity r = ''General''"
    if "r \<in> set ?rs" "gen ?n = Responds (Some (JArr ps))"
      "find_parsed ps (mentionId r) = Inr (Some found)"
      "\<forall>s. get_field found ''entity'' = Some (JStr s) \<longrightarrow> (\<forall>c \<in> set s. is_space c)" for ps found
    using first [OF that(1)] that(2,3,4) by auto
  have third: "mentionId (?rs ! i) = id_m (ms ! i) \<and> entity (?rs ! i) = s"
    if "\<not> no_key apiKey" "gen ?n = Responds (Some (JArr ps))"
      "\<forall>m \<in> set ms. find_parsed ps (id_m m) \<noteq> Inl TypeError" "i < length ms"
      "find_parsed ps (id_m (ms ! i)) = Inr (Some found)"
      "get_field found ''entity'' = Some (JStr s)" "\<not> (\<forall>c \<in> set s. is_space c)"
    for ps found s i
  proof -
    have "map mentionId ?rs ! i = map id_m ms ! i"
      by (simp add: analyzeBatch_mentionIds)
    moreover have "length ?rs = length ms"
      using analyzeBatch_mentionIds [of apiKey gen ms rc w] by (metis length_map)
    ultimately have "mentionId (?rs ! i) = id_m (ms ! i)"
      using that(4) by simp
    moreover have "entity (?rs ! i) = s"
      using that by (rule analyzeBatch_accepts_entity)
    ultimately show ?thesis by simp
  qed
  from first second third show ?thesis by blast
qed




theorem analyzeBatch_entity_counterexample:
  "entity (hd (fst (analyzeBatch (Some ''key'') loud_gen [hd demo_batch] 0 w0))) = ''Taste''
   \<and> ''Taste'' \<notin> set [''Quality'', ''Service'', ''Price'', ''Ambiance'', ''Location'', ''General'']"
  by (simp add: analyzeBatch.simps reconcile_def coerce_def default_result_def
      normalizeSentiment_def sleep_def trim_def is_space_def w0_def demo_batch_def loud_gen_def)

theorem analyzeBatch_entity_witness:
  "\<not> no_key (Some ''key'')
   \<and> loud_gen (calls (snd (analyzeBatch (Some ''key'') loud_gen [hd demo_batch] 0 w0)) - 1) =
       Responds (Some (JArr
         [JObj [(''mentionId'', JStr ''csv-row-1''), (''sentiment'', JStr ''positive''),
                (''score'', JNum 7), (''entity'', JStr ''Taste'')]]))
   \<and> find_parsed
         [JObj [(''mentionId'', JStr ''csv-row-1''), (''sentiment'', JStr ''positive''),
                (''score'', JNum 7), (''entity'', JStr ''Taste'')]]
         (id_m ([hd demo_batch] ! 0)) =
       Inr (Some (JObj [(''mentionId'', JStr ''csv-row-1''), (''sentiment'', JStr ''positive''),
                (''score'', JNum 7), (''entity'', JStr ''Taste'')]))
   \<and> \<not> (\<forall>c \<in> set ''Taste''. is_space c)
   \<and> entity (fst (analyzeBatch (Some ''key'') loud_gen [hd demo_batch] 0 w0) ! 0) = ''Taste''
   \<and> fst (analyzeBatch (Some ''key'') blank_gen [hd demo_batch] 0 w0) ! 0
       \<in> set (fst (analyzeBatch (Some ''key'') blank_gen [hd demo_batch] 0 w0))
   \<and> entity (fst (analyzeBatch (Some ''key'') blank_gen [hd demo_batch] 0 w0) ! 0) = ''General''"
proof -
  note ev = analyzeBatch.simps reconcile_def coerce_def default_result_def
    normalizeSentiment_def sleep_def trim_def is_space_def w0_def demo_batch_def
    loud_gen_def blank_gen_def
  let ?found = "JObj [(''mentionId'', JStr ''csv-row-1''), (''sentiment'', JStr ''positive''),
                (''score'', JNum 7), (''entity'', JStr ''Taste'')]"
  let ?blank = "JObj [(''mentionId'', JStr ''csv-row-1''), (''sentiment'', JStr ''positive''),
                (''score'', JNum (4 / 5)), (''entity'', JStr ''  '')]"
  let ?rs = "fst (analyzeBatch (Some ''key'') loud_gen [hd demo_batch] 0 w0)"
  let ?bs = "fst (analyzeBatch (Some ''key'') blank_gen [hd demo_batch] 0 w0)"
  have k: "\<not> no_key (Some ''key'')" by simp
  have g: "loud_gen (calls (snd (analyzeBatch (Some ''key'') loud_gen [hd demo_batch] 0 w0)) - 1)
      = Responds (Some (JArr [?found]))"
    by (simp add: loud_gen_def)
  have ok: "\<forall>m \<in> set [hd demo_batch]. find_parsed [?found] (id_m m) \<noteq> Inl TypeError"
    by (simp add: demo_batch_def)
  have i: "0 < length [hd demo_batch]" by simp
  have f: "find_parsed [?found] (id_m ([hd demo_batch] ! 0)) = Inr (Some ?found)"
    by (simp add: demo_batch_def)
  have e: "get_field ?found ''entity'' = Some (JStr ''Taste'')"
    "\<not> (\<forall>c \<in> set ''Taste''. is_space c)"
    by (simp_all add: is_space_def)
  from analyzeBatch_entity [of _ "Some ''key''" loud_gen "[hd demo_batch]" 0 w0] k g ok i f e
  have taste: "entity (?rs ! 0) = ''Taste''" by blast
  have mem: "?bs ! 0 \<in> set ?bs" by (simp add: ev)
  have gb: "blank_gen (calls (snd (analyzeBatch (Some ''key'') blank_gen [hd demo_batch] 0 w0)) - 1)
      = Responds (Some (JArr [?blank]))"
    by (simp add: blank_gen_def)
  have fb: "find_parsed [?blank] (mentionId (?bs ! 0)) = Inr (Some ?blank)"
    by (simp add: ev)
  have eb: "\<forall>s. get_field ?blank ''entity'' = Some (JStr s) \<longrightarrow> (\<forall>c \<in> set s. is_space c)"
    by (simp add: is_space_def)
  from analyzeBatch_entity [of "?bs ! 0" "Some ''key''" blank_gen "[hd demo_batch]" 0 w0]
    mem gb fb eb
  have general: "entity (?bs ! 0) = ''General''" by blast
  from k g f e(2) taste mem general show ?thesis by blast
qed

subsection \<open>Retries\<close>

lemma analyzeBatch_run:
  assumes "\<not> no_key apiKey" and "rc \<le> 3"
  shows "\<exists>j. rc + j \<le> 3
      \<and> (\<forall>i<j. gen (calls w + i) = Rejects (Some 429))
      \<and> (rc + j < 3 \<longrightarrow> gen (calls w + j) \<noteq> Rejects (Some 429))
      \<and> analyzeBatch apiKey gen ms rc w =
          ((case try_body (gen (calls w + j)) ms of
              Inr rs \<Rightarrow> rs | Inl e \<Rightarrow> map default_result ms),
           w\<lparr>calls := calls w + j + 1,
             sleeps := sleeps w @ map (\<lambda>i. 2 ^ i * 15000) [rc..<rc + j]\<rparr>)"
  using assms
proof (induction apiKey gen ms rc w rule: analyzeBatch.induct)
  case (1 apiKey gen mentions retryCount w)
  note nk = \<open>\<not> no_key apiKey\<close>
  show ?case
  proof (cases "try_body (gen (calls w)) mentions")
    case (Inr results)
    have ab: "analyzeBatch apiKey gen mentions retryCount w = (results, w\<lparr>calls := calls w + 1\<rparr>)"
      using nk Inr by (subst analyzeBatch.simps) simp
    have "gen (calls w) \<noteq> Rejects (Some 429)"
      using Inr by auto
    with ab Inr "1.prems" show ?thesis
      by (intro exI [of _ 0]) simp
  next
    case (Inl error)
    show ?thesis
    proof (cases "status error = Some 429 \<and> retryCount < 3")
      case True
      let ?w1 = "sleep (2 ^ retryCount * 15000) (w\<lparr>calls := calls w + 1\<rparr>)"
      have g0: "gen (calls w) = Rejects (Some 429)"
        using Inl True by (auto dest: try_body_429)
      have ab: "analyzeBatch apiKey gen mentions retryCount w =
            analyzeBatch apiKey gen mentions (retryCount + 1) ?w1"
        using nk Inl True by (subst analyzeBatch.simps) simp
      from True have "retryCount + 1 \<le> 3" by simp
      from "1.IH" [OF nk Inl True nk this] obtain j where j:
        "retryCount + 1 + j \<le> 3"
        "\<forall>i<j. gen (calls ?w1 + i) = Rejects (Some 429)"
        "retryCount + 1 + j < 3 \<longrightarrow> gen (calls ?w1 + j) \<noteq> Rejects (Some 429)"
        "analyzeBatch apiKey gen mentions (retryCount + 1) ?w1 =
          ((case try_body (gen (calls ?w1 + j)) mentions of
              Inr rs \<Rightarrow> rs | Inl e \<Rightarrow> map default_result mentions),
           ?w1\<lparr>calls := calls ?w1 + j + 1,
             sleeps := sleeps ?w1 @ map (\<lambda>i. 2 ^ i * 15000) [retryCount + 1..<retryCount + 1 + j]\<rparr>)"
        by blast
      have c1: "calls ?w1 = calls w + 1" by (simp add: sleep_def)
      have all: "\<forall>i<Suc j. gen (calls w + i) = Rejects (Some 429)"
      proof (intro allI impI)
        fix i assume "i < Suc j"
        show "gen (calls w + i) = Rejects (Some 429)"
        proof (cases i)
          case 0
          with g0 show ?thesis by simp
        next
          case (Suc i')
          with \<open>i < Suc j\<close> j(2) c1 show ?thesis by simp
        qed
      qed
      have upt: "[retryCount..<retryCount + Suc j] = retryCount # [retryCount + 1..<retryCount + 1 + j]"
        by (simp add: upt_rec [of retryCount])
      have "analyzeBatch apiKey gen mentions retryCount w =
          ((case try_body (gen (calls w + Suc j)) mentions of
              Inr rs \<Rightarrow> rs | Inl e \<Rightarrow> map default_result mentions),
           w\<lparr>calls := calls w + Suc j + 1,
             sleeps := sleeps w @ map (\<lambda>i. 2 ^ i * 15000) [retryCount..<retryCount + Suc j]\<rparr>)"
        unfolding ab j(4) upt by (simp add: sleep_def)
      moreover have "retryCount + Suc j \<le> 3" using j(1) by simp
      moreover have "retryCount + Suc j < 3 \<longrightarrow> gen (calls w + Suc j) \<noteq> Rejects (Some 429)"
        using j(3) c1 by simp
      ultimately show ?thesis using all by blast
    next
      case False
      have ab: "analyzeBatch apiKey gen mentions retryCount w =
          (map default_result mentions, w\<lparr>calls := calls w + 1\<rparr>)"
        using nk Inl False by (subst analyzeBatch.simps) auto
      have "retryCount < 3 \<longrightarrow> gen (calls w) \<noteq> Rejects (Some 429)"
        using Inl False by auto
      with ab Inl "1.prems" show ?thesis
        by (intro exI [of _ 0]) simp
    qed
  qed
qed


lemma backoff_waits:
  "j \<le> 3 \<Longrightarrow> map (\<lambda>i. 2 ^ i * 15000) [0..<j] = take j [15000, 30000, 60000 :: nat]"
proof -
  assume "j \<le> 3"
  then consider "j = 0" | "j = 1" | "j = 2" | "j = 3" by linarith
  then show ?thesis
    by cases (simp_all add: upt_rec numeral_2_eq_2 numeral_3_eq_3)
qed

lemma analyzeBatch_retry_run:
  assumes nk: "\<not> no_key apiKey"
  shows "(\<exists>j\<le>3. (\<forall>i<j. gen (calls w + i) = Rejects (Some 429))
            \<and> (j < 3 \<longrightarrow> gen (calls w + j) \<noteq> Rejects (Some 429))
            \<and> analyzeBatch apiKey gen ms 0 w =
                ((case try_body (gen (calls w + j)) ms of
                    Inr rs \<Rightarrow> rs | Inl e \<Rightarrow> map default_result ms),
                 w\<lparr>calls := calls w + j + 1,
                   sleeps := sleeps w @ take j [15000, 30000, 60000]\<rparr>))
         \<and> ((\<forall>i<4. gen (calls w + i) = Rejects (Some 429)) \<longrightarrow>
              analyzeBatch apiKey gen ms 0 w =
                (map default_result ms,
                 w\<lparr>calls := calls w + 4, sleeps := sleeps w @ [15000, 30000, 60000]\<rparr>))
         \<and> (\<forall>j e. j \<le> 3 \<and> (\<forall>i<j. gen (calls w + i) = Rejects (Some 429))
                \<and> try_body (gen (calls w + j)) ms = Inl e \<and> status e \<noteq> Some 429 \<longrightarrow>
              analyzeBatch apiKey gen ms 0 w =
                (map default_result ms,
                 w\<lparr>calls := calls w + j + 1,
                   sleeps := sleeps w @ take j [15000, 30000, 60000]\<rparr>))"
proof -
  let ?res = "\<lambda>j. ((case try_body (gen (calls w + j)) ms of
                    Inr rs \<Rightarrow> rs | Inl e \<Rightarrow> map default_result ms),
                 w\<lparr>calls := calls w + j + 1,
                   sleeps := sleeps w @ take j [15000, 30000, 60000]\<rparr>)"
  from analyzeBatch_run [OF nk, of 0 gen w ms] obtain j where j:
    "j \<le> 3" "\<forall>i<j. gen (calls w + i) = Rejects (Some 429)"
    "j < 3 \<longrightarrow> gen (calls w + j) \<noteq> Rejects (Some 429)"
    "analyzeBatch apiKey gen ms 0 w =
       ((case try_body (gen (calls w + j)) ms of
           Inr rs \<Rightarrow> rs | Inl e \<Rightarrow> map default_result ms),
        w\<lparr>calls := calls w + j + 1,
          sleeps := sleeps w @ map (\<lambda>i. 2 ^ i * 15000) [0..<0 + j]\<rparr>)"
    by auto
  have run: "analyzeBatch apiKey gen ms 0 w = ?res j"
    using j(4) backoff_waits [OF j(1)] by simp
  have first: "\<exists>j\<le>3. (\<forall>i<j. gen (calls w + i) = Rejects (Some 429))
            \<and> (j < 3 \<longrightarrow> gen (calls w + j) \<noteq> Rejects (Some 429))
            \<and> analyzeBatch apiKey gen ms 0 w = ?res j"
    using j(1,2,3) run by blast
  have second: "analyzeBatch apiKey gen ms 0 w =
        (map default_result ms,
         w\<lparr>calls := calls w + 4, sleeps := sleeps w @ [15000, 30000, 60000]\<rparr>)"
    if a: "\<forall>i<4. gen (calls w + i) = Rejects (Some 429)"
  proof -
    have "\<not> j < 3"
    proof
      assume "j < 3"
      with j(3) a show False by simp
    qed
    with j(1) have "j = 3" by simp
    moreover from a have "gen (calls w + 3) = Rejects (Some 429)" by simp
    ultimately show ?thesis using run by simp
  qed
  have third: "analyzeBatch apiKey gen ms 0 w =
        (map default_result ms,
         w\<lparr>calls := calls w + k + 1, sleeps := sleeps w @ take k [15000, 30000, 60000]\<rparr>)"
    if k: "k \<le> 3" "\<forall>i<k. gen (calls w + i) = Rejects (Some 429)"
      "try_body (gen (calls w + k)) ms = Inl e" "status e \<noteq> Some 429" for k e
  proof -
    have nr: "gen (calls w + k) \<noteq> Rejects (Some 429)"
      using k(3,4) by auto
    have "\<not> j < k"
    proof
      assume "j < k"
      with k(1,2) j(3) show False by simp
    qed
    moreover have "\<not> k < j"
    proof
      assume "k < j"
      with j(2) nr show False by simp
    qed
    ultimately have "j = k" by simp
    with run k(3) show ?thesis by simp
  qed
  from first second third show ?thesis by blast
qed

lemma default_result_fun:
  "default_result =
     (\<lambda>m. \<lparr>mentionId = id_m m, sentiment = Neutral, score = 1 / 2, entity = ''General''\<rparr>)"
  by (rule ext) (simp add: default_result_def)

text \<open>
  Claim C6. With an API key configured, a call of \<open>analyzeBatch\<close> makes \<open>j + 1\<close> calls
  to the model for some \<open>j\<close> of at most 3: each of the first \<open>j\<close> calls failed with
  status 429 and was followed by a wait, the waits being 15, 30 and 60 seconds in that
  order, and the same reviews were sent again. What it returns is what the last call
  gives, and one default result per review when the last call fails: so after four
  failures with status 429, and after a failure of any other kind at any attempt, it
  returns for each review the result with that review's id, sentiment neutral, score
  0.5 and entity \<open>General\<close>, and raises nothing.
\<close>

theorem analyzeBatch_retry_policy:
  assumes nk: "\<not> no_key apiKey"
  shows "(\<exists>j\<le>3. (\<forall>i<j. gen (calls w + i) = Rejects (Some 429))
            \<and> (j < 3 \<longrightarrow> gen (calls w + j) \<noteq> Rejects (Some 429))
            \<and> analyzeBatch apiKey gen ms 0 w =
                ((case try_body (gen (calls w + j)) ms of
                    Inr rs \<Rightarrow> rs
                  | Inl e \<Rightarrow>
                      map (\<lambda>m. \<lparr>mentionId = id_m m, sentiment = Neutral, score = 1 / 2,
                                 entity = ''General''\<rparr>) ms),
                 w\<lparr>calls := calls w + j + 1,
                   sleeps := sleeps w @ take j [15000, 30000, 60000]\<rparr>))
         \<and> ((\<forall>i<4. gen (calls w + i) = Rejects (Some 429)) \<longrightarrow>
              analyzeBatch apiKey gen ms 0 w =
                (map (\<lambda>m. \<lparr>mentionId = id_m m, sentiment = Neutral, score = 1 / 2,
                           entity = ''General''\<rparr>) ms,
                 w\<lparr>calls := calls w + 4, sleeps := sleeps w @ [15000, 30000, 60000]\<rparr>))
         \<and> (\<forall>j e. j \<le> 3 \<and> (\<forall>i<j. gen (calls w + i) = Rejects (Some 429))
                \<and> try_body (gen (calls w + j)) ms = Inl e \<and> status e \<noteq> Some 429 \<longrightarrow>
              analyzeBatch apiKey gen ms 0 w =
                (map (\<lambda>m. \<lparr>mentionId = id_m m, sentiment = Neutral, score = 1 / 2,
                           entity = ''General''\<rparr>) ms,
                 w\<lparr>calls := calls w + j + 1,
                   sleeps := sleeps w @ take j [15000, 30000, 60000]\<rparr>))"
  using analyzeBatch_retry_run [OF nk, of gen w ms] unfolding default_result_fun .

theorem analyzeBatch_retry_policy_witness:
  "\<not> no_key (Some ''key'')
   \<and> analyzeBatch (Some ''key'') (\<lambda>n. Rejects (Some 429)) demo_batch 0 w0 =
       ([\<lparr>mentionId = ''csv-row-1'', sentiment = Neutral, score = 1 / 2, entity = ''General''\<rparr>,
         \<lparr>mentionId = ''csv-row-2'', sentiment = Neutral, score = 1 / 2, entity = ''General''\<rparr>],
        \<lparr>calls = 4, sleeps = [15000, 30000, 60000]\<rparr>)
   \<and> try_body (Rejects (Some 500)) demo_batch = Inl (ApiError (Some 500))
   \<and> analyzeBatch (Some ''key'') (\<lambda>n. Rejects (Some 500)) demo_batch 0 w0 =
       ([\<lparr>mentionId = ''csv-row-1'', sentiment = Neutral, score = 1 / 2, entity = ''General''\<rparr>,
         \<lparr>mentionId = ''csv-row-2'', sentiment = Neutral, score = 1 / 2, entity = ''General''\<rparr>],
        \<lparr>calls = 1, sleeps = []\<rparr>)"
proof -
  have k: "\<not> no_key (Some ''key'')" by simp
  have a: "\<forall>i<4. (\<lambda>n. Rejects (Some 429)) (calls w0 + i) = Rejects (Some 429)" by simp
  from analyzeBatch_retry_policy [OF k, of "\<lambda>n. Rejects (Some 429)" w0 demo_batch] a
  have r429: "analyzeBatch (Some ''key'') (\<lambda>n. Rejects (Some 429)) demo_batch 0 w0 =
       (map (\<lambda>m. \<lparr>mentionId = id_m m, sentiment = Neutral, score = 1 / 2,
                  entity = ''General''\<rparr>) demo_batch,
        w0\<lparr>calls := calls w0 + 4, sleeps := sleeps w0 @ [15000, 30000, 60000]\<rparr>)"
    by blast
  have t: "try_body (Rejects (Some 500)) demo_batch = Inl (ApiError (Some 500))" by simp
  have b: "(0::nat) \<le> 3 \<and> (\<forall>i<0. (\<lambda>n. Rejects (Some 500)) (calls w0 + i) = Rejects (Some 429))
      \<and> try_body ((\<lambda>n. Rejects (Some 500)) (calls w0 + 0)) demo_batch = Inl (ApiError (Some 500))
      \<and> status (ApiError (Some 500)) \<noteq> Some 429"
    by simp
  from analyzeBatch_retry_policy [OF k, of "\<lambda>n. Rejects (Some 500)" w0 demo_batch] b
  have r500: "analyzeBatch (Some ''key'') (\<lambda>n. Rejects (Some 500)) demo_batch 0 w0 =
       (map (\<lambda>m. \<lparr>mentionId = id_m m, sentiment = Neutral, score = 1 / 2,
                  entity = ''General''\<rparr>) demo_batch,
        w0\<lparr>calls := calls w0 + 0 + 1, sleeps := sleeps w0 @ take 0 [15000, 30000, 60000]\<rparr>)"
    by blast
  from k r429 t r500 show ?thesis by (simp add: w0_def demo_batch_def)
qed

section \<open>Properties of the batch loop\<close>

lemma partition_batches_Nil [simp]: "partition_batches n [] = []"
  by (simp add: partition_batches.simps)

lemma partition_batches_step:
  "0 < n \<Longrightarrow> xs \<noteq> [] \<Longrightarrow>
     partition_batches n xs = take n xs # partition_batches n (drop n xs)"
  by (subst partition_batches.simps) simp

lemma partition_batches_empty_iff: "partition_batches n xs = [] \<longleftrightarrow> n = 0 \<or> xs = []"
  by (subst partition_batches.simps) simp

lemma concat_partition_batches: "0 < n \<Longrightarrow> concat (partition_batches n xs) = xs"
proof (induction n xs rule: partition_batches.induct)
  case (1 n xs)
  show ?case
  proof (cases "xs = []")
    case True
    then show ?thesis by simp
  next
    case False
    with 1 show ?thesis by (simp add: partition_batches_step)
  qed
qed

lemma partition_batches_sizes:
  "0 < n \<Longrightarrow> b \<in> set (partition_batches n xs) \<Longrightarrow> b \<noteq> [] \<and> length b \<le> n"
proof (induction n xs rule: partition_batches.induct)
  case (1 n xs)
  show ?case
  proof (cases "xs = []")
    case True
    with "1.prems" show ?thesis by simp
  next
    case False
    with 1 show ?thesis by (auto simp: partition_batches_step)
  qed
qed

lemma partition_batches_full:
  "0 < n \<Longrightarrow> b \<in> set (butlast (partition_batches n xs)) \<Longrightarrow> length b = n"
proof (induction n xs rule: partition_batches.induct)
  case (1 n xs)
  show ?case
  proof (cases "xs = []")
    case True
    with "1.prems" show ?thesis by simp
  next
    case False
    show ?thesis
    proof (cases "drop n xs = []")
      case True
      with False "1.prems" show ?thesis by (simp add: partition_batches_step)
    next
      case dn: False
      then have ne: "partition_batches n (drop n xs) \<noteq> []"
        using "1.prems"(1) by (simp add: partition_batches_empty_iff)
      from dn have "n < length xs" by simp
      with ne False 1 show ?thesis by (auto simp: partition_batches_step)
    qed
  qed
qed

lemma batch_loop_refines:
  "batch_loop apiKey gen ms i acc w =
     (let (rs, w1) = dispatch_sequentially apiKey gen (partition_batches BATCH_SIZE (drop i ms)) w
      in (acc @ rs, w1))"
proof (induction apiKey gen ms i acc w rule: batch_loop.induct)
  case (1 apiKey gen ms i analyses w)
  show ?case
  proof (cases "i < length ms")
    case False
    then show ?thesis by (subst batch_loop.simps) simp
  next
    case True
    obtain batchResults w1
      where ab: "analyzeBatch apiKey gen (slice ms i (i + BATCH_SIZE)) 0 w = (batchResults, w1)"
      by (cases "analyzeBatch apiKey gen (slice ms i (i + BATCH_SIZE)) 0 w")
    let ?w2 = "if i + BATCH_SIZE < length ms then sleep 12000 w1 else w1"
    have step: "batch_loop apiKey gen ms i analyses w =
        batch_loop apiKey gen ms (i + BATCH_SIZE) (analyses @ batchResults) ?w2"
      using True ab by (subst batch_loop.simps) (simp add: Let_def)
    have ih: "batch_loop apiKey gen ms (i + BATCH_SIZE) (analyses @ batchResults) ?w2 =
        (let (rs, w3) = dispatch_sequentially apiKey gen
                          (partition_batches BATCH_SIZE (drop (i + BATCH_SIZE) ms)) ?w2
         in ((analyses @ batchResults) @ rs, w3))"
      by (rule "1.IH" [OF True refl ab [symmetric] refl refl])
    have sl: "slice ms i (i + BATCH_SIZE) = take BATCH_SIZE (drop i ms)"
      by (simp add: slice_def)
    have dr: "drop BATCH_SIZE (drop i ms) = drop (i + BATCH_SIZE) ms"
      by (simp add: add.commute)
    have ne: "drop i ms \<noteq> []" using True by simp
    have part: "partition_batches BATCH_SIZE (drop i ms) =
        take BATCH_SIZE (drop i ms) # partition_batches BATCH_SIZE (drop (i + BATCH_SIZE) ms)"
      using partition_batches_step [of BATCH_SIZE "drop i ms"] ne dr by (simp add: BATCH_SIZE_def)
    have more: "partition_batches BATCH_SIZE (drop (i + BATCH_SIZE) ms) \<noteq> []
        \<longleftrightarrow> i + BATCH_SIZE < length ms"
      by (auto simp: partition_batches_empty_iff BATCH_SIZE_def)
    show ?thesis
      unfolding step ih part
      using ab sl more by (simp add: Let_def split: prod.splits)
  qed
qed


lemma dispatch_sequentially_mentionIds:
  "map mentionId (fst (dispatch_sequentially apiKey gen bs w)) = map id_m (concat bs)"
proof (induction bs arbitrary: w)
  case Nil
  then show ?case by simp
next
  case (Cons b bs)
  obtain r w1 where ab: "analyzeBatch apiKey gen b 0 w = (r, w1)"
    by (cases "analyzeBatch apiKey gen b 0 w")
  have r: "map mentionId r = map id_m b"
    using analyzeBatch_mentionIds [of apiKey gen b 0 w] ab by simp
  let ?w2 = "if bs \<noteq> [] then sleep 12000 w1 else w1"
  obtain rs w3 where ds: "dispatch_sequentially apiKey gen bs ?w2 = (rs, w3)"
    by (cases "dispatch_sequentially apiKey gen bs ?w2")
  have "map mentionId rs = map id_m (concat bs)"
    using Cons.IH [of ?w2] ds by simp
  with r ab ds show ?case by (simp add: Let_def)
qed

text \<open>
  Claim C2. The batch loop of the upload handler does what the batcher of the
  specification does: it cuts the reviews, in their order, into consecutive batches of
  15, the last one possibly smaller and none empty, sends them to the classifier one
  after the other, and returns the per-batch results concatenated, so that the result at
  each position belongs to the review at that position. On no reviews it returns no
  results and leaves the world as it was: no call to the model and no wait.
\<close>

theorem batch_loop_partitions:
  "batch_loop apiKey gen ms 0 [] w
     = dispatch_sequentially apiKey gen (partition_batches BATCH_SIZE ms) w
   \<and> BATCH_SIZE = 15
   \<and> concat (partition_batches BATCH_SIZE ms) = ms
   \<and> (\<forall>b \<in> set (partition_batches BATCH_SIZE ms). b \<noteq> [] \<and> length b \<le> BATCH_SIZE)
   \<and> (\<forall>b \<in> set (butlast (partition_batches BATCH_SIZE ms)). length b = BATCH_SIZE)
   \<and> map mentionId (fst (batch_loop apiKey gen ms 0 [] w)) = map id_m ms
   \<and> batch_loop apiKey gen [] 0 [] w = ([], w)"
proof -
  have pos: "0 < BATCH_SIZE" by (simp add: BATCH_SIZE_def)
  have ref: "batch_loop apiKey gen ms 0 [] w
      = dispatch_sequentially apiKey gen (partition_batches BATCH_SIZE ms) w"
    by (simp add: batch_loop_refines split: prod.splits)
  have cc: "concat (partition_batches BATCH_SIZE ms) = ms"
    by (rule concat_partition_batches [OF pos])
  have ids: "map mentionId (fst (batch_loop apiKey gen ms 0 [] w)) = map id_m ms"
    unfolding ref by (simp add: dispatch_sequentially_mentionIds cc)
  have emp: "batch_loop apiKey gen [] 0 [] w = ([], w)"
    by (subst batch_loop.simps) simp
  have sz: "\<forall>b \<in> set (partition_batches BATCH_SIZE ms). b \<noteq> [] \<and> length b \<le> BATCH_SIZE"
    using partition_batches_sizes [OF pos] by blast
  have fl: "\<forall>b \<in> set (butlast (partition_batches BATCH_SIZE ms)). length b = BATCH_SIZE"
    using partition_batches_full [OF pos] by blast
  have bs: "BATCH_SIZE = 15" by (simp add: BATCH_SIZE_def)
  from ref bs cc sz fl ids emp show ?thesis by blast
qed

lemma demo_upload_batches:
  "map (map id_m) (partition_batches BATCH_SIZE demo_upload) =
     [[''csv-row-1'', ''csv-row-2'', ''csv-row-3'', ''csv-row-4'', ''csv-row-5'',
       ''csv-row-6'', ''csv-row-7'', ''csv-row-8'', ''csv-row-9'', ''csv-row-10'',
       ''csv-row-11'', ''csv-row-12'', ''csv-row-13'', ''csv-row-14'', ''csv-row-15''],
      [''csv-row-16'', ''csv-row-17'']]"
  by code_simp

theorem batch_loop_partitions_witness:
  "map (map id_m) (partition_batches BATCH_SIZE demo_upload) =
     [[''csv-row-1'', ''csv-row-2'', ''csv-row-3'', ''csv-row-4'', ''csv-row-5'',
       ''csv-row-6'', ''csv-row-7'', ''csv-row-8'', ''csv-row-9'', ''csv-row-10'',
       ''csv-row-11'', ''csv-row-12'', ''csv-row-13'', ''csv-row-14'', ''csv-row-15''],
      [''csv-row-16'', ''csv-row-17'']]
   \<and> concat (partition_batches BATCH_SIZE demo_upload) = demo_upload
   \<and> batch_loop (Some ''key'') demo_gen demo_upload 0 [] w0
       = dispatch_sequentially (Some ''key'') demo_gen (partition_batches BATCH_SIZE demo_upload) w0
   \<and> map mentionId (fst (batch_loop (Some ''key'') demo_gen demo_upload 0 [] w0))
       = map id_m demo_upload"
  using batch_loop_partitions [of "Some ''key''" demo_gen demo_upload w0] demo_upload_batches
  by blast


section \<open>Properties of the row normaliser\<close>




lemma is_digit_not_sep: "is_digit c \<Longrightarrow> c \<noteq> CHR ''T'' \<and> c \<noteq> CHR '' ''"
  by (auto simp: is_digit_def)

lemma ymd_chars:
  assumes "is_ymd d"
  shows "CHR ''T'' \<notin> set d \<and> CHR '' '' \<notin> set d"
proof -
  from assms have len: "length d = 10" and m: "matches_ymd d"
    by (simp_all add: is_ymd_def)
  from len obtain y1 y2 y3 y4 h1 m1 m2 h2 d1 d2
    where d: "d = [y1, y2, y3, y4, h1, m1, m2, h2, d1, d2]"
    by (auto simp: numeral_eq_Suc length_Suc_conv)
  from m show ?thesis unfolding d by (auto dest: is_digit_not_sep)
qed

lemma split_first_sep:
  "sep \<notin> set d \<Longrightarrow> split_first sep (d @ sep # rest) = d"
  by (auto simp: split_first_def takeWhile_tail)

lemma split_first_none:
  "sep \<notin> set d \<Longrightarrow> split_first sep d = d"
  by (auto simp: split_first_def)

lemma split_first_other:
  "sep \<notin> set d \<Longrightarrow> c \<noteq> sep \<Longrightarrow>
     split_first sep (d @ c # rest) = d @ c # split_first sep rest"
proof -
  assume a: "sep \<notin> set d" "c \<noteq> sep"
  have "takeWhile (\<lambda>x. x \<noteq> sep) (d @ c # rest)
        = d @ takeWhile (\<lambda>x. x \<noteq> sep) (c # rest)"
    using a(1) by (intro takeWhile_append2) auto
  with a(2) show ?thesis by (simp add: split_first_def)
qed

lemma normalizeDate_ymd:
  assumes d: "is_ymd d" and sep: "sep = CHR ''T'' \<or> sep = CHR '' ''"
  shows "normalizeDate (d @ sep # rest) = d"
proof -
  from ymd_chars [OF d] have nt: "CHR ''T'' \<notin> set d" and ns: "CHR '' '' \<notin> set d"
    by simp_all
  have "split_first CHR '' '' (split_first CHR ''T'' (d @ sep # rest)) = d"
    using sep
  proof
    assume "sep = CHR ''T''"
    with nt ns show ?thesis by (simp add: split_first_sep split_first_none)
  next
    assume "sep = CHR '' ''"
    with nt ns show ?thesis by (simp add: split_first_other split_first_sep)
  qed
  moreover from d have "take 10 d = d" by (simp add: is_ymd_def)
  ultimately show ?thesis by (simp add: normalizeDate_def)
qed

lemma foundDateKey_nonempty: "foundDateKey row = Some k \<Longrightarrow> k \<noteq> []"
proof
  assume f: "foundDateKey row = Some k" and "k = []"
  from f have "trim (toLowerCase k) \<in> set dateKeys"
    by (auto simp: foundDateKey_def find_Some_iff)
  with \<open>k = []\<close> show False
    by (simp add: trim_def toLowerCase_def dateKeys_def)
qed

text \<open>
  Claim C8. A date text that is a date YYYY-MM-DD followed by \<open>T\<close> or by a space and
  anything after it is normalised to that ten-character date, and this is the date of
  the record when the text stands in the row's date column. A row without a date
  column gets the date part of the current time, \<open>new Date().toISOString()\<close>.
\<close>

theorem normalizeDate_strips_time:
  "(is_ymd d \<and> (sep = CHR ''T'' \<or> sep = CHR '' '') \<longrightarrow> normalizeDate (d @ sep # rest) = d)
   \<and> (is_ymd d \<and> (sep = CHR ''T'' \<or> sep = CHR '' '') \<and> foundDateKey row = Some k
        \<and> map_of row k = Some (d @ sep # rest) \<and> on_data platform now n row = Some m
      \<longrightarrow> date_m m = d)
   \<and> (is_ymd d \<and> foundDateKey row = None \<and> on_data platform (d @ CHR ''T'' # t) n row = Some m
      \<longrightarrow> date_m m = d)"
proof -
  have a: "normalizeDate (d @ sep # rest) = d"
    if "is_ymd d" "sep = CHR ''T'' \<or> sep = CHR '' ''"
    using that by (rule normalizeDate_ymd)
  have b: "date_m m = d"
    if "is_ymd d" "sep = CHR ''T'' \<or> sep = CHR '' ''" "foundDateKey row = Some k"
      "map_of row k = Some (d @ sep # rest)" "on_data platform now n row = Some m"
  proof -
    from that(3) have "k \<noteq> []" by (rule foundDateKey_nonempty)
    with that(3,4) have "rawDate now row = d @ sep # rest"
      by (simp add: rawDate_def)
    with that(5) a [OF that(1,2)] show ?thesis
      by (auto simp: on_data_def Let_def split: if_splits)
  qed
  have c: "date_m m = d"
    if "is_ymd d" "foundDateKey row = None" "on_data platform (d @ CHR ''T'' # t) n row = Some m"
  proof -
    from that(2) have "rawDate (d @ CHR ''T'' # t) row = d @ CHR ''T'' # t"
      by (simp add: rawDate_def)
    with that(3) normalizeDate_ymd [OF that(1), of "CHR ''T''" t] show ?thesis
      by (auto simp: on_data_def Let_def split: if_splits)
  qed
  from a b c show ?thesis by blast
qed

theorem normalizeDate_strips_time_witness:
  "is_ymd ''2025-09-15''
   \<and> foundDateKey [(''text'', ''enak''), ('' Date'', ''2025-09-15 10:00:00'')] = Some '' Date''
   \<and> on_data ''CSV'' ''2026-11-02T08:30:00.000Z'' 3
        [(''text'', ''enak''), ('' Date'', ''2025-09-15 10:00:00'')]
       = Some \<lparr>id_m = ''csv-row-3'', source_m = ''CSV'', content_m = ''enak'',
               date_m = ''2025-09-15''\<rparr>
   \<and> normalizeDate ''2025-09-15T10:00:00Z'' = ''2025-09-15''
   \<and> foundDateKey [(''text'', ''enak'')] = None
   \<and> is_ymd ''2026-11-02''
   \<and> on_data ''CSV'' ''2026-11-02T08:30:00.000Z'' 3 [(''text'', ''enak'')]
       = Some \<lparr>id_m = ''csv-row-3'', source_m = ''CSV'', content_m = ''enak'',
               date_m = ''2026-11-02''\<rparr>"
proof -
  have y: "is_ymd ''2025-09-15''" "is_ymd ''2026-11-02''"
    by (simp_all add: on_data_def row_content_def js_or_def normalizeDate_def rawDate_def
      foundDateKey_def toLowerCase_def lower_char_def char_of_def bit_Suc_0_iff trim_def
      is_space_def dateKeys_def split_first_def is_digit_def show_nat.simps is_ymd_def)
  have f: "foundDateKey [(''text'', ''enak''), ('' Date'', ''2025-09-15 10:00:00'')] = Some '' Date''"
    "foundDateKey [(''text'', ''enak'')] = None"
    by (simp_all add: on_data_def row_content_def js_or_def normalizeDate_def rawDate_def
      foundDateKey_def toLowerCase_def lower_char_def char_of_def bit_Suc_0_iff trim_def
      is_space_def dateKeys_def split_first_def is_digit_def show_nat.simps is_ymd_def)
  have o: "on_data ''CSV'' ''2026-11-02T08:30:00.000Z'' 3
        [(''text'', ''enak''), ('' Date'', ''2025-09-15 10:00:00'')]
       = Some \<lparr>id_m = ''csv-row-3'', source_m = ''CSV'', content_m = ''enak'',
               date_m = ''2025-09-15''\<rparr>"
    "on_data ''CSV'' ''2026-11-02T08:30:00.000Z'' 3 [(''text'', ''enak'')]
       = Some \<lparr>id_m = ''csv-row-3'', source_m = ''CSV'', content_m = ''enak'',
               date_m = ''2026-11-02''\<rparr>"
    by (simp_all add: on_data_def row_content_def js_or_def normalizeDate_def rawDate_def
      foundDateKey_def toLowerCase_def lower_char_def char_of_def bit_Suc_0_iff trim_def
      is_space_def dateKeys_def split_first_def is_digit_def show_nat.simps is_ymd_def)
  from normalizeDate_strips_time [of "''2025-09-15''" "CHR ''T''" "''10:00:00Z''"] y
  have n: "normalizeDate ''2025-09-15T10:00:00Z'' = ''2025-09-15''" by simp
  from y f o n show ?thesis by blast
qed



section \<open>Properties of the bulk insert\<close>

lemma transaction_filter:
  "transaction insert_throws items table = table @ filter (\<lambda>i. \<not> insert_throws i) items"
  by (induction items arbitrary: table) auto

lemma on_end_reported: "fst (on_end apiKey gen insert_throws ms table w) = length ms"
  by (simp add: on_end_def Let_def split: prod.splits)

lemma on_end_stored:
  "fst (snd (on_end apiKey gen insert_throws ms table w)) =
     table @ filter (\<lambda>i. \<not> insert_throws i)
               (map (to_store (fst (batch_loop apiKey gen ms 0 [] w))) ms)"
  by (simp add: on_end_def Let_def transaction_filter split: prod.splits)

text \<open>
  Claim C7. The transaction skips a failing insert and goes on with the rest
  (\<open>transaction_filter\<close>), but the number in the success message is the number of rows
  handed to the transaction (\<open>on_end_reported\<close>), not the number of rows stored. On an
  upload of two reviews during which every insert throws, the message says that 2
  reviews were stored and the table holds none.
\<close>

theorem on_end_reports_attempted_count:
  "fst (on_end (Some ''key'') demo_gen (\<lambda>item. True) demo_batch [] w0) = 2
   \<and> fst (snd (on_end (Some ''key'') demo_gen (\<lambda>item. True) demo_batch [] w0)) = []"
  by (simp add: on_end_reported on_end_stored demo_batch_def)

section \<open>Properties of the read endpoints\<close>

lemma list_reviews_unfiltered:
  "sf \<notin> {QString ''positive'', QString ''negative'', QString ''neutral''} \<Longrightarrow>
     list_reviews sf table = rev (sort_key date_r (rev table))"
  by (simp add: list_reviews_def)

text \<open>
  Claim C10. When the \<open>sentiment\<close> parameter is absent or is anything but exactly
  \<open>positive\<close>, \<open>negative\<close> or \<open>neutral\<close>, the listing holds every stored row, each as
  often as the table does, in descending order of date.
\<close>

theorem list_reviews_no_filter:
  assumes "sf \<notin> {QString ''positive'', QString ''negative'', QString ''neutral''}"
  shows "mset (list_reviews sf table) = mset table
         \<and> length (list_reviews sf table) = length table
         \<and> sorted (rev (map date_r (list_reviews sf table)))"
  using assms by (simp add: list_reviews_unfiltered rev_map)

theorem list_reviews_no_filter_witness:
  "QString ''Positive'' \<notin> {QString ''positive'', QString ''negative'', QString ''neutral''}
   \<and> map date_r (list_reviews (QString ''Positive'') (take 3 demo_table))
       = [''2025-04-20'', ''2025-03-20'', ''2025-02-20'']
   \<and> mset (list_reviews (QString ''Positive'') (take 3 demo_table)) = mset (take 3 demo_table)
   \<and> map date_r (list_reviews QUndefined (take 3 demo_table))
       = [''2025-04-20'', ''2025-03-20'', ''2025-02-20'']"
proof -
  have a: "QString ''Positive'' \<notin> {QString ''positive'', QString ''negative'', QString ''neutral''}"
    by simp
  have b: "map date_r (list_reviews (QString ''Positive'') (take 3 demo_table))
       = [''2025-04-20'', ''2025-03-20'', ''2025-02-20'']"
    "map date_r (list_reviews QUndefined (take 3 demo_table))
       = [''2025-04-20'', ''2025-03-20'', ''2025-02-20'']"
    by (simp_all add: list_reviews_def demo_table_def)
  from list_reviews_no_filter [OF a, of "take 3 demo_table"] a b show ?thesis by blast
qed

lemma count_sentiment_total:
  "count_sentiment Positive g + count_sentiment Neutral g + count_sentiment Negative g = length g"
proof (induction g)
  case Nil
  then show ?case by (simp add: count_sentiment_def)
next
  case (Cons r g)
  then show ?case by (cases "sentiment_r r") (simp_all add: count_sentiment_def)
qed

lemma trends_months:
  "map month_t (trends ym cutoff table) =
     sort (remdups (map (\<lambda>r. ym (date_r r)) (filter (\<lambda>r. cutoff \<le> date_r r) table)))"
  by (simp add: trends_def Let_def comp_def)

lemma trends_row:
  assumes "t \<in> set (trends ym cutoff table)"
  shows "count_t t = length (filter (\<lambda>r. cutoff \<le> date_r r \<and> ym (date_r r) = month_t t) table)
         \<and> positive_t t + neutral_t t + negative_t t = count_t t"
proof -
  let ?sel = "filter (\<lambda>r. cutoff \<le> date_r r) table"
  from assms obtain m where t: "t =
      \<lparr>month_t = m, count_t = length (filter (\<lambda>r. ym (date_r r) = m) ?sel),
       positive_t = count_sentiment Positive (filter (\<lambda>r. ym (date_r r) = m) ?sel),
       neutral_t = count_sentiment Neutral (filter (\<lambda>r. ym (date_r r) = m) ?sel),
       negative_t = count_sentiment Negative (filter (\<lambda>r. ym (date_r r) = m) ?sel)\<rparr>"
    by (auto simp: trends_def Let_def)
  have "filter (\<lambda>r. ym (date_r r) = m) ?sel
        = filter (\<lambda>r. cutoff \<le> date_r r \<and> ym (date_r r) = m) table"
    by (simp add: conj_commute)
  with t count_sentiment_total [of "filter (\<lambda>r. ym (date_r r) = m) ?sel"]
  show ?thesis by simp
qed

lemma trends_row_exact:
  assumes "t \<in> set (trends ym cutoff table)"
  shows "count_t t
           = length (filter (\<lambda>r. cutoff \<le> date_r r \<and> ym (date_r r) = month_t t) table)
         \<and> positive_t t
           = length (filter (\<lambda>r. cutoff \<le> date_r r \<and> ym (date_r r) = month_t t
                                 \<and> sentiment_r r = Positive) table)
         \<and> neutral_t t
           = length (filter (\<lambda>r. cutoff \<le> date_r r \<and> ym (date_r r) = month_t t
                                 \<and> sentiment_r r = Neutral) table)
         \<and> negative_t t
           = length (filter (\<lambda>r. cutoff \<le> date_r r \<and> ym (date_r r) = month_t t
                                 \<and> sentiment_r r = Negative) table)"
proof -
  let ?sel = "filter (\<lambda>r. cutoff \<le> date_r r) table"
  from assms obtain m where t: "t =
      \<lparr>month_t = m, count_t = length (filter (\<lambda>r. ym (date_r r) = m) ?sel),
       positive_t = count_sentiment Positive (filter (\<lambda>r. ym (date_r r) = m) ?sel),
       neutral_t = count_sentiment Neutral (filter (\<lambda>r. ym (date_r r) = m) ?sel),
       negative_t = count_sentiment Negative (filter (\<lambda>r. ym (date_r r) = m) ?sel)\<rparr>"
    by (auto simp: trends_def Let_def)
  have c: "filter (\<lambda>r. ym (date_r r) = m) ?sel
        = filter (\<lambda>r. cutoff \<le> date_r r \<and> ym (date_r r) = m) table"
    by (simp add: conj_commute)
  have s: "count_sentiment x (filter (\<lambda>r. cutoff \<le> date_r r \<and> ym (date_r r) = m) table)
        = length (filter (\<lambda>r. cutoff \<le> date_r r \<and> ym (date_r r) = m \<and> sentiment_r r = x) table)"
    for x
    by (simp add: count_sentiment_def conj_assoc)
  show ?thesis unfolding t c by (simp add: s)
qed

text \<open>
  Claim C9, as amended. The trends query returns one row for each month, as
  \<open>strftime('%Y-%m', date)\<close> gives it, of the stored reviews whose date text is not
  below the cutoff, the day six months before today: every such review has its month
  among the rows, whatever the month, and no other month appears. The rows are in
  ascending order of month without repetition. Each row carries the number of those
  reviews in its month, and the numbers of them that are positive, neutral and
  negative, which add up to the first.
\<close>

theorem trends_window:
  "(\<forall>t \<in> set (trends ym cutoff table).
      \<exists>r \<in> set table. cutoff \<le> date_r r \<and> ym (date_r r) = month_t t)
   \<and> (\<forall>r \<in> set table. cutoff \<le> date_r r \<longrightarrow>
         ym (date_r r) \<in> set (map month_t (trends ym cutoff table)))
   \<and> sorted (map month_t (trends ym cutoff table))
   \<and> distinct (map month_t (trends ym cutoff table))
   \<and> (\<forall>t \<in> set (trends ym cutoff table).
         count_t t
           = length (filter (\<lambda>r. cutoff \<le> date_r r \<and> ym (date_r r) = month_t t) table)
         \<and> positive_t t
           = length (filter (\<lambda>r. cutoff \<le> date_r r \<and> ym (date_r r) = month_t t
                                 \<and> sentiment_r r = Positive) table)
         \<and> neutral_t t
           = length (filter (\<lambda>r. cutoff \<le> date_r r \<and> ym (date_r r) = month_t t
                                 \<and> sentiment_r r = Neutral) table)
         \<and> negative_t t
           = length (filter (\<lambda>r. cutoff \<le> date_r r \<and> ym (date_r r) = month_t t
                                 \<and> sentiment_r r = Negative) table)
         \<and> positive_t t + neutral_t t + negative_t t = count_t t)"
proof -
  let ?ms = "map month_t (trends ym cutoff table)"
  have set_ms: "set ?ms = (\<lambda>r. ym (date_r r)) ` {r \<in> set table. cutoff \<le> date_r r}"
    by (simp add: trends_months)
  have a: "\<exists>r \<in> set table. cutoff \<le> date_r r \<and> ym (date_r r) = month_t t"
    if "t \<in> set (trends ym cutoff table)" for t
  proof -
    from that have "month_t t \<in> set ?ms" by simp
    with set_ms show ?thesis by auto
  qed
  have b: "ym (date_r r) \<in> set ?ms" if "r \<in> set table" "cutoff \<le> date_r r" for r
    using that set_ms by blast
  have c: "sorted ?ms" by (simp add: trends_months)
  have d: "distinct ?ms" by (simp add: trends_months)
  have e: "count_t t
           = length (filter (\<lambda>r. cutoff \<le> date_r r \<and> ym (date_r r) = month_t t) table)
         \<and> positive_t t
           = length (filter (\<lambda>r. cutoff \<le> date_r r \<and> ym (date_r r) = month_t t
                                 \<and> sentiment_r r = Positive) table)
         \<and> neutral_t t
           = length (filter (\<lambda>r. cutoff \<le> date_r r \<and> ym (date_r r) = month_t t
                                 \<and> sentiment_r r = Neutral) table)
         \<and> negative_t t
           = length (filter (\<lambda>r. cutoff \<le> date_r r \<and> ym (date_r r) = month_t t
                                 \<and> sentiment_r r = Negative) table)
         \<and> positive_t t + neutral_t t + negative_t t = count_t t"
    if t: "t \<in> set (trends ym cutoff table)" for t
  proof -
    from trends_row_exact [OF t] trends_row [OF t] show ?thesis by simp
  qed
  from a b c d e show ?thesis by blast
qed

theorem trends_window_witness:
  "trends (\<lambda>d. Some (take 7 d)) ''2025-03-15'' demo_march =
     [\<lparr>month_t = Some ''2025-03'', count_t = 3, positive_t = 1, neutral_t = 0, negative_t = 2\<rparr>]
   \<and> length (filter (\<lambda>r. ''2025-03-15'' \<le> date_r r \<and> Some (take 7 (date_r r)) = Some ''2025-03''
                        \<and> sentiment_r r = Negative) demo_march) = 2
   \<and> map month_t (trends (\<lambda>d. Some (take 7 d)) ''2025-03-15'' demo_table) =
       [Some ''2025-03'', Some ''2025-04'', Some ''2025-05'', Some ''2025-06'', Some ''2025-07'',
        Some ''2025-08'', Some ''2025-09'']
   \<and> sorted (map month_t (trends (\<lambda>d. Some (take 7 d)) ''2025-03-15'' demo_table))
   \<and> distinct (map month_t (trends (\<lambda>d. Some (take 7 d)) ''2025-03-15'' demo_table))
   \<and> hd demo_table \<in> set demo_table
   \<and> \<not> ''2025-03-15'' \<le> date_r (hd demo_table)
   \<and> Some ''2025-02'' \<notin> set (map month_t (trends (\<lambda>d. Some (take 7 d)) ''2025-03-15'' demo_table))"
proof -
  let ?f = "\<lambda>d. Some (take 7 d)"
  let ?row = "\<lparr>month_t = Some ''2025-03'', count_t = 3, positive_t = 1, neutral_t = 0,
               negative_t = 2\<rparr>"
  have v: "trends ?f ''2025-03-15'' demo_march = [?row]"
    by (simp add: trends_def demo_march_def Let_def count_sentiment_def)
  have n: "length (filter (\<lambda>r. ''2025-03-15'' \<le> date_r r \<and> ?f (date_r r) = Some ''2025-03''
                        \<and> sentiment_r r = Negative) demo_march) = 2"
    by (simp add: demo_march_def)
  have m: "map month_t (trends ?f ''2025-03-15'' demo_table) =
     [Some ''2025-03'', Some ''2025-04'', Some ''2025-05'', Some ''2025-06'', Some ''2025-07'',
      Some ''2025-08'', Some ''2025-09'']"
    by (simp add: trends_def demo_table_def Let_def)
  have h: "hd demo_table \<in> set demo_table" "\<not> ''2025-03-15'' \<le> date_r (hd demo_table)"
    by (simp_all add: demo_table_def)
  have o: "Some ''2025-02'' \<notin> set (map month_t (trends ?f ''2025-03-15'' demo_table))"
    unfolding m by simp
  note tw = trends_window [of ?f "''2025-03-15''" demo_table]
  have sd: "sorted (map month_t (trends ?f ''2025-03-15'' demo_table))"
    "distinct (map month_t (trends ?f ''2025-03-15'' demo_table))"
    using tw [THEN conjunct2, THEN conjunct2, THEN conjunct1]
      tw [THEN conjunct2, THEN conjunct2, THEN conjunct2, THEN conjunct1] by - assumption+
  from v n m sd h o show ?thesis by blast
qed

theorem trends_counterexample:
  "map month_t (trends (\<lambda>d. Some (take 7 d)) ''2025-03-15'' demo_table) =
     [Some ''2025-03'', Some ''2025-04'', Some ''2025-05'', Some ''2025-06'', Some ''2025-07'',
      Some ''2025-08'', Some ''2025-09'']
   \<and> length (trends (\<lambda>d. Some (take 7 d)) ''2025-03-15'' demo_table) = 7"
  by (simp add: trends_def demo_table_def Let_def)

end
